theory Spec2Isabelle
  imports Main "HOL-Library.List_Lexorder" "HOL-Library.Char_ord"
begin

section \<open>JavaScript strings\<close>

text \<open>
  A JavaScript string is modelled as a \<^typ>\<open>string\<close>: a list of characters, each a
  code unit below 256. The functions below are the string methods the sources call:
  \<open>startsWith\<close>, \<open>includes\<close> (here \<open>includes_str\<close>), \<open>split\<close> on a
  one-character separator, \<open>replace\<close> with a string pattern (first occurrence only),
  \<open>trim\<close>, and the decimal rendering of a non-negative integer in a template literal.
  The white space that \<open>trim\<close> removes is, below 256: tab, line feed, vertical tab,
  form feed, carriage return, space and the no-break space U+00A0.
\<close>

fun startsWith :: "string \<Rightarrow> string \<Rightarrow> bool" where
  "startsWith s [] = True"
| "startsWith [] (p # ps) = False"
| "startsWith (c # cs) (p # ps) = (c = p \<and> startsWith cs ps)"

fun includes_str :: "string \<Rightarrow> string \<Rightarrow> bool" where
  "includes_str [] pat = (pat = [])"
| "includes_str (c # cs) pat = (startsWith (c # cs) pat \<or> includes_str cs pat)"

text \<open>\<open>s.split(sep)\<close> for a separator of one character: never the empty array.\<close>

fun split :: "char \<Rightarrow> string \<Rightarrow> string list" where
  "split sep [] = [[]]"
| "split sep (c # cs) =
     (if c = sep then [] # split sep cs
      else (case split sep cs of
              [] \<Rightarrow> [[c]]
            | p # ps \<Rightarrow> (c # p) # ps))"

text \<open>\<open>s.replace(pat, rep)\<close> for a string \<open>pat\<close>: only the first occurrence is replaced.\<close>

fun replace :: "string \<Rightarrow> string \<Rightarrow> string \<Rightarrow> string" where
  "replace [] pat rep = (if pat = [] then rep else [])"
| "replace (c # cs) pat rep =
     (if startsWith (c # cs) pat then rep @ drop (length pat) (c # cs)
      else c # replace cs pat rep)"

definition isSpace :: "char \<Rightarrow> bool" where
  "isSpace c = (c = CHR '' '' \<or> c = CHR 0x09 \<or> c = CHR 0x0A \<or> c = CHR 0x0B
                \<or> c = CHR 0x0C \<or> c = CHR 0x0D \<or> c = CHR 0xA0)"

definition trim :: "string \<Rightarrow> string" where
  "trim s = rev (dropWhile isSpace (rev (dropWhile isSpace s)))"

definition digit :: "nat \<Rightarrow> char" where
  "digit d = char_of (48 + d)"

fun decimal :: "nat \<Rightarrow> string" where
  "decimal n = (if n < 10 then [digit n] else decimal (n div 10) @ [digit (n mod 10)])"

declare decimal.simps [simp del]

section \<open>Record model (types/playlist.ts)\<close>

text \<open>
  Field names carry a prefix because the interfaces share their field names
  (\<open>id\<close>, \<open>name\<close>, \<open>url\<close>, ...). An optional field \<open>f?: T\<close> is a \<open>T option\<close>;
  a \<open>Record<string, string>\<close> is an association list in insertion order.
\<close>

datatype DRMType = Widevine | Fairplay | Playready | Clearkey

record DRMInfo =
  drm_type :: "DRMType option"
  drm_licenseServer :: "string option"
  drm_headers :: "(string \<times> string) list option"
  drm_certificateUrl :: "string option"

record Channel =
  c_id :: string
  c_name :: string
  c_url :: string
  c_logo :: "string option"
  c_group :: string
  c_tvgId :: "string option"
  c_tvgName :: "string option"
  c_drm :: "DRMInfo option"
  c_headers :: "(string \<times> string) list option"
  c_isLive :: "bool option"
  c_quality :: "string option"

record Playlist =
  p_id :: string
  p_name :: string
  p_url :: "string option"
  p_channels :: "Channel list"
  p_categories :: "string list"
  p_lastUpdated :: int

section \<open>Chunked persistence (lib/storage.ts)\<close>

subsection \<open>Persisted shapes\<close>

datatype PlaylistType = M3u | Xtream

record XtreamCredentials =
  x_server :: string
  x_username :: string
  x_password :: string

record PlaylistInfo =
  i_id :: string
  i_name :: string
  i_type :: PlaylistType
  i_url :: "string option"
  i_xtreamCredentials :: "XtreamCredentials option"
  i_channelCount :: nat
  i_lastUpdated :: int

record PlaylistMeta =
  m_id :: string
  m_name :: string
  m_type :: PlaylistType
  m_url :: "string option"
  m_xtreamCredentials :: "XtreamCredentials option"
  m_categories :: "string list"
  m_lastUpdated :: int
  m_totalChannels :: nat
  m_chunkCount :: nat

record MinimalChannel =
  mc_i :: string
  mc_n :: string
  mc_u :: string
  mc_l :: "string option"
  mc_g :: string

definition CHUNK_SIZE :: nat where
  "CHUNK_SIZE = 300"

definition KEY_PLAYLISTS :: string where
  "KEY_PLAYLISTS = ''prysm_playlists''"

definition KEY_ACTIVE_PLAYLIST_ID :: string where
  "KEY_ACTIVE_PLAYLIST_ID = ''prysm_active_playlist''"

definition KEY_PLAYLIST_META :: string where
  "KEY_PLAYLIST_META = ''prysm_playlist_meta_''"

definition KEY_PLAYLIST_CHUNKS :: string where
  "KEY_PLAYLIST_CHUNKS = ''prysm_playlist_chunks_''"

text \<open>The two template literals that build the per-playlist keys.\<close>

definition meta_key :: "string \<Rightarrow> string" where
  "meta_key pid = KEY_PLAYLIST_META @ pid"

definition chunk_key :: "string \<Rightarrow> nat \<Rightarrow> string" where
  "chunk_key pid i = KEY_PLAYLIST_CHUNKS @ pid @ ''_'' @ decimal i"

text \<open>\<open>if (channel.logo) min.l = channel.logo\<close>: an empty logo is falsy and is not copied.\<close>

definition minimizeChannel :: "Channel \<Rightarrow> MinimalChannel" where
  "minimizeChannel channel =
     \<lparr> mc_i = c_id channel, mc_n = c_name channel, mc_u = c_url channel,
       mc_l = (case c_logo channel of
                 None \<Rightarrow> None
               | Some l \<Rightarrow> if l = [] then None else Some l),
       mc_g = c_group channel \<rparr>"

definition expandChannel :: "MinimalChannel \<Rightarrow> Channel" where
  "expandChannel m =
     \<lparr> c_id = mc_i m, c_name = mc_n m, c_url = mc_u m, c_logo = mc_l m,
       c_group = mc_g m, c_tvgId = None, c_tvgName = None, c_drm = None,
       c_headers = None, c_isLive = None, c_quality = None \<rparr>"

subsection \<open>The key/value store\<close>

text \<open>
  AsyncStorage holds strings; every record but the active playlist id is written with
  \<open>JSON.stringify\<close> and read with \<open>JSON.parse\<close>. The model keeps the value that was
  serialised (all fields are strings, integers and lists of them, on which the round trip
  through JSON is the identity; a field that is \<open>undefined\<close> is left out by
  \<open>JSON.stringify\<close> and is \<open>undefined\<close> again after \<open>JSON.parse\<close>).

  An error thrown by the store is a value with the two properties the code inspects.
  Which calls fail is part of the store's state: \<open>faults\<close> lists the outcome of the
  calls to come, in order, \<open>Some e\<close> for a call that rejects with \<open>e\<close> and leaves the
  items as they are; once the list is used up every call succeeds.
\<close>

datatype stored =
    SText string
  | SMeta PlaylistMeta
  | SChunk "MinimalChannel list"
  | SInfos "PlaylistInfo list"

record js_error =
  e_message :: "string option"
  e_code :: "int option"

record AsyncStorage =
  items :: "string \<Rightarrow> stored option"
  faults :: "js_error option list"

definition next_fault :: "AsyncStorage \<Rightarrow> js_error option \<times> AsyncStorage" where
  "next_fault s =
     (case faults s of
        [] \<Rightarrow> (None, s)
      | f # fs \<Rightarrow> (f, s\<lparr>faults := fs\<rparr>))"

definition getItem :: "string \<Rightarrow> AsyncStorage \<Rightarrow> (js_error + stored option) \<times> AsyncStorage" where
  "getItem k s =
     (case next_fault s of
        (Some e, s') \<Rightarrow> (Inl e, s')
      | (None, s') \<Rightarrow> (Inr (items s' k), s'))"

definition setItem :: "string \<Rightarrow> stored \<Rightarrow> AsyncStorage \<Rightarrow> (js_error + unit) \<times> AsyncStorage" where
  "setItem k v s =
     (case next_fault s of
        (Some e, s') \<Rightarrow> (Inl e, s')
      | (None, s') \<Rightarrow> (Inr (), s'\<lparr>items := (items s')(k \<mapsto> v)\<rparr>))"

definition removeItem :: "string \<Rightarrow> AsyncStorage \<Rightarrow> (js_error + unit) \<times> AsyncStorage" where
  "removeItem k s =
     (case next_fault s of
        (Some e, s') \<Rightarrow> (Inl e, s')
      | (None, s') \<Rightarrow> (Inr (), s'\<lparr>items := (items s')(k := None)\<rparr>))"

definition multiRemove :: "string list \<Rightarrow> AsyncStorage \<Rightarrow> (js_error + unit) \<times> AsyncStorage" where
  "multiRemove ks s =
     (case next_fault s of
        (Some e, s') \<Rightarrow> (Inl e, s')
      | (None, s') \<Rightarrow>
          (Inr (), s'\<lparr>items := (\<lambda>k. if k \<in> set ks then None else items s' k)\<rparr>))"

subsection \<open>Summary list and active playlist id\<close>

text \<open>
  \<open>data ? JSON.parse(data) : []\<close> inside a \<open>try\<close> whose \<open>catch\<close> returns \<open>[]\<close>:
  a failed read, a missing key, the empty string and text that does not parse all give
  the empty list. Only the summary list is ever written under this key.
\<close>

definition getPlaylistList :: "AsyncStorage \<Rightarrow> PlaylistInfo list \<times> AsyncStorage" where
  "getPlaylistList s =
     (case getItem KEY_PLAYLISTS s of
        (Inr (Some (SInfos l)), s') \<Rightarrow> (l, s')
      | (_, s') \<Rightarrow> ([], s'))"

definition savePlaylistList :: "PlaylistInfo list \<Rightarrow> AsyncStorage \<Rightarrow> AsyncStorage" where
  "savePlaylistList playlists s = snd (setItem KEY_PLAYLISTS (SInfos playlists) s)"

definition getActivePlaylistId :: "AsyncStorage \<Rightarrow> string option \<times> AsyncStorage" where
  "getActivePlaylistId s =
     (case getItem KEY_ACTIVE_PLAYLIST_ID s of
        (Inr (Some (SText v)), s') \<Rightarrow> (Some v, s')
      | (_, s') \<Rightarrow> (None, s'))"

definition setActivePlaylistId :: "string \<Rightarrow> AsyncStorage \<Rightarrow> AsyncStorage" where
  "setActivePlaylistId pid s = snd (setItem KEY_ACTIVE_PLAYLIST_ID (SText pid) s)"

subsection \<open>savePlaylist\<close>

text \<open>
  \<open>error.message?.includes("disk is full") || error.code === 13\<close>, the test both
  \<open>catch\<close> blocks of \<open>savePlaylist\<close> apply, and the error the outer one throws in
  its place. The playlist type, which defaults to \<open>"m3u"\<close> in the source, is always
  given here.
\<close>

definition isDiskFull :: "js_error \<Rightarrow> bool" where
  "isDiskFull e =
     ((case e_message e of None \<Rightarrow> False | Some m \<Rightarrow> includes_str m ''disk is full'')
      \<or> e_code e = Some 13)"

definition storage_full_error :: js_error where
  "storage_full_error =
     \<lparr> e_message =
         Some ''Device storage is full. Please free up some space or use a smaller playlist.'',
       e_code = None \<rparr>"

definition rethrow :: "js_error \<Rightarrow> js_error" where
  "rethrow e = (if isDiskFull e then storage_full_error else e)"

text \<open>\<open>Math.ceil(n / CHUNK_SIZE)\<close> and \<open>xs.slice(start, end)\<close> for \<open>start \<le> end\<close>.\<close>

definition chunk_count :: "nat \<Rightarrow> nat" where
  "chunk_count n = (n + (CHUNK_SIZE - 1)) div CHUNK_SIZE"

definition slice :: "nat \<Rightarrow> nat \<Rightarrow> 'a list \<Rightarrow> 'a list" where
  "slice start end xs = take (end - start) (drop start xs)"

definition chunk_of :: "Channel list \<Rightarrow> nat \<Rightarrow> MinimalChannel list" where
  "chunk_of channels i =
     (let start = i * CHUNK_SIZE;
          end = min (start + CHUNK_SIZE) (length channels)
      in map minimizeChannel (slice start end channels))"

fun findIndex :: "('a \<Rightarrow> bool) \<Rightarrow> 'a list \<Rightarrow> nat option" where
  "findIndex P [] = None"
| "findIndex P (x # xs) = (if P x then Some 0 else map_option Suc (findIndex P xs))"

text \<open>
  The loop over the chunks, from index \<open>i\<close>. It returns the metadata as the loop leaves
  it: unchanged after the last chunk, or cut down to the chunks written when a write
  reports that the disk is full and the metadata is written again. Any other error, and an
  error of that second metadata write, leaves the loop as an exception (\<open>Inl\<close>).
\<close>

function save_chunks ::
  "string \<Rightarrow> Channel list \<Rightarrow> nat \<Rightarrow> PlaylistMeta \<Rightarrow> nat \<Rightarrow> AsyncStorage
     \<Rightarrow> (js_error + PlaylistMeta) \<times> AsyncStorage" where
  "save_chunks pid channels chunkCount meta i s =
     (if i < chunkCount then
        (case setItem (chunk_key pid i) (SChunk (chunk_of channels i)) s of
           (Inr _, s') \<Rightarrow> save_chunks pid channels chunkCount meta (i + 1) s'
         | (Inl chunkError, s') \<Rightarrow>
             if isDiskFull chunkError then
               (let meta' = meta\<lparr>m_chunkCount := i, m_totalChannels := i * CHUNK_SIZE\<rparr>
                in case setItem (meta_key pid) (SMeta meta') s' of
                     (Inr _, s'') \<Rightarrow> (Inr meta', s'')
                   | (Inl e, s'') \<Rightarrow> (Inl e, s''))
             else (Inl chunkError, s'))
      else (Inr meta, s))"
  by pat_completeness auto
termination
  by (relation "measure (\<lambda>(pid, channels, chunkCount, meta, i, s). chunkCount - i)") auto

declare save_chunks.simps [simp del]

definition savePlaylist ::
  "Playlist \<Rightarrow> PlaylistType \<Rightarrow> XtreamCredentials option \<Rightarrow> AsyncStorage
     \<Rightarrow> (js_error + unit) \<times> AsyncStorage" where
  "savePlaylist playlist type xtreamCredentials s =
     (let channels = p_channels playlist;
          chunkCount = chunk_count (length channels);
          meta = \<lparr> m_id = p_id playlist, m_name = p_name playlist, m_type = type,
                   m_url = p_url playlist, m_xtreamCredentials = xtreamCredentials,
                   m_categories = take 50 (p_categories playlist),
                   m_lastUpdated = p_lastUpdated playlist,
                   m_totalChannels = length channels, m_chunkCount = chunkCount \<rparr>
      in case setItem (meta_key (p_id playlist)) (SMeta meta) s of
           (Inl e, s1) \<Rightarrow> (Inl (rethrow e), s1)
         | (Inr _, s1) \<Rightarrow>
             (case save_chunks (p_id playlist) channels chunkCount meta 0 s1 of
                (Inl e, s2) \<Rightarrow> (Inl (rethrow e), s2)
              | (Inr meta', s2) \<Rightarrow>
                  (let (playlists, s3) = getPlaylistList s2;
                       playlistInfo =
                         \<lparr> i_id = p_id playlist, i_name = p_name playlist, i_type = type,
                           i_url = p_url playlist, i_xtreamCredentials = xtreamCredentials,
                           i_channelCount = m_totalChannels meta',
                           i_lastUpdated = m_lastUpdated meta' \<rparr>;
                       playlists' =
                         (case findIndex (\<lambda>p. i_id p = p_id playlist) playlists of
                            Some existingIndex \<Rightarrow> playlists[existingIndex := playlistInfo]
                          | None \<Rightarrow> playlists @ [playlistInfo]);
                       s4 = savePlaylistList playlists' s3;
                       s5 = setActivePlaylistId (p_id playlist) s4
                   in (Inr (), s5))))"

subsection \<open>getPlaylist\<close>

text \<open>
  The loop over the chunks of a load: a chunk that is missing, or whose read fails, is
  skipped. Only chunks are ever written under a chunk key; any other content there is
  skipped like a chunk that does not parse.
\<close>

function load_chunks ::
  "string \<Rightarrow> nat \<Rightarrow> nat \<Rightarrow> Channel list \<Rightarrow> AsyncStorage \<Rightarrow> Channel list \<times> AsyncStorage" where
  "load_chunks pid chunkCount i channels s =
     (if i < chunkCount then
        (case getItem (chunk_key pid i) s of
           (Inr (Some (SChunk chunk)), s') \<Rightarrow>
             load_chunks pid chunkCount (i + 1) (channels @ map expandChannel chunk) s'
         | (_, s') \<Rightarrow> load_chunks pid chunkCount (i + 1) channels s')
      else (channels, s))"
  by pat_completeness auto
termination
  by (relation "measure (\<lambda>(pid, chunkCount, i, channels, s). chunkCount - i)") auto

declare load_chunks.simps [simp del]

text \<open>
  \<open>playlistId || await getActivePlaylistId()\<close>: the active id is read only when the
  argument is missing or the empty string, and an id that is still empty gives \<open>null\<close>.
  Only metadata is ever written under a metadata key; any other content there is read as
  text that does not parse, which the outer \<open>catch\<close> turns into \<open>null\<close>.
\<close>

definition getPlaylist :: "string option \<Rightarrow> AsyncStorage \<Rightarrow> Playlist option \<times> AsyncStorage" where
  "getPlaylist playlistId s =
     (let (id', s1) =
            (case playlistId of
               Some pid \<Rightarrow> if pid \<noteq> [] then (Some pid, s) else getActivePlaylistId s
             | None \<Rightarrow> getActivePlaylistId s)
      in case id' of
           None \<Rightarrow> (None, s1)
         | Some pid \<Rightarrow>
             if pid = [] then (None, s1)
             else (case getItem (meta_key pid) s1 of
                     (Inr (Some (SMeta meta)), s2) \<Rightarrow>
                       (let (channels, s3) = load_chunks pid (m_chunkCount meta) 0 [] s2
                        in (Some \<lparr> p_id = m_id meta, p_name = m_name meta, p_url = m_url meta,
                                   p_channels = channels, p_categories = m_categories meta,
                                   p_lastUpdated = m_lastUpdated meta \<rparr>, s3))
                   | (_, s2) \<Rightarrow> (None, s2)))"

subsection \<open>deletePlaylist\<close>

text \<open>
  The whole body is inside one \<open>try\<close> whose \<open>catch\<close> only logs: the first call that
  throws ends the operation. \<open>getPlaylistList\<close>, \<open>savePlaylistList\<close>,
  \<open>getActivePlaylistId\<close> and \<open>setActivePlaylistId\<close> catch their own errors.
  Under the metadata key, the empty string is falsy, other plain text makes
  \<open>JSON.parse\<close> throw, and a stored array parses to a value whose \<open>chunkCount\<close> is
  \<open>undefined\<close>, so that the loop adds no chunk key.
\<close>

definition parse_error :: js_error where
  "parse_error = \<lparr> e_message = Some ''JSON Parse error'', e_code = None \<rparr>"

definition deletePlaylist :: "string \<Rightarrow> AsyncStorage \<Rightarrow> AsyncStorage" where
  "deletePlaylist playlistId s =
     (case getItem (meta_key playlistId) s of
        (Inl e, s1) \<Rightarrow> s1
      | (Inr metaStr, s1) \<Rightarrow>
          (let (removed, s2) =
                 (case metaStr of
                    None \<Rightarrow> (Inr (), s1)
                  | Some (SMeta meta) \<Rightarrow>
                      multiRemove (meta_key playlistId
                                     # map (chunk_key playlistId) [0 ..< m_chunkCount meta]) s1
                  | Some (SText t) \<Rightarrow> if t = [] then (Inr (), s1) else (Inl parse_error, s1)
                  | Some _ \<Rightarrow> multiRemove [meta_key playlistId] s1)
           in case removed of
                Inl e \<Rightarrow> s2
              | Inr _ \<Rightarrow>
                  (let (playlists, s3) = getPlaylistList s2;
                       filtered = filter (\<lambda>p. i_id p \<noteq> playlistId) playlists;
                       s4 = savePlaylistList filtered s3;
                       (activeId, s5) = getActivePlaylistId s4
                   in if activeId = Some playlistId then
                        (case filtered of
                           first # _ \<Rightarrow> setActivePlaylistId (i_id first) s5
                         | [] \<Rightarrow> snd (removeItem KEY_ACTIVE_PLAYLIST_ID s5))
                      else s5)))"

subsection \<open>States reached by the loops\<close>

text \<open>
  The store after the chunks \<open>i, ..., k - 1\<close> of \<open>channels\<close> have been written by
  \<open>k - i\<close> calls, and the channels a load reads from the chunk records \<open>i, ..., n - 1\<close>.
  They describe what the two loops do and are used to state it.
\<close>

definition chunks_written :: "string \<Rightarrow> Channel list \<Rightarrow> nat \<Rightarrow> nat \<Rightarrow> AsyncStorage \<Rightarrow> AsyncStorage" where
  "chunks_written pid channels i k s =
     s\<lparr>items := (\<lambda>key. case find (\<lambda>j. key = chunk_key pid j) [i ..< k] of
                          Some j \<Rightarrow> Some (SChunk (chunk_of channels j))
                        | None \<Rightarrow> items s key),
       faults := drop (k - i) (faults s)\<rparr>"

definition chunk_channels :: "AsyncStorage \<Rightarrow> string \<Rightarrow> nat \<Rightarrow> Channel list" where
  "chunk_channels s pid j =
     (case items s (chunk_key pid j) of
        Some (SChunk chunk) \<Rightarrow> map expandChannel chunk
      | _ \<Rightarrow> [])"

text \<open>
  The metadata record \<open>savePlaylist\<close> builds first, and the part of \<open>savePlaylist\<close>
  after the loop (summary list and active id) as a function of the metadata the loop
  left, named so that the lemmas can speak about them.
\<close>

definition initial_meta :: "Playlist \<Rightarrow> PlaylistType \<Rightarrow> XtreamCredentials option \<Rightarrow> PlaylistMeta" where
  "initial_meta playlist type xtreamCredentials =
     \<lparr> m_id = p_id playlist, m_name = p_name playlist, m_type = type,
       m_url = p_url playlist, m_xtreamCredentials = xtreamCredentials,
       m_categories = take 50 (p_categories playlist),
       m_lastUpdated = p_lastUpdated playlist,
       m_totalChannels = length (p_channels playlist),
       m_chunkCount = chunk_count (length (p_channels playlist)) \<rparr>"

definition summary_of ::
  "Playlist \<Rightarrow> PlaylistType \<Rightarrow> XtreamCredentials option \<Rightarrow> PlaylistMeta \<Rightarrow> PlaylistInfo" where
  "summary_of playlist type xtreamCredentials meta =
     \<lparr> i_id = p_id playlist, i_name = p_name playlist, i_type = type,
       i_url = p_url playlist, i_xtreamCredentials = xtreamCredentials,
       i_channelCount = m_totalChannels meta, i_lastUpdated = m_lastUpdated meta \<rparr>"

definition upsert :: "PlaylistInfo \<Rightarrow> PlaylistInfo list \<Rightarrow> PlaylistInfo list" where
  "upsert info playlists =
     (case findIndex (\<lambda>p. i_id p = i_id info) playlists of
        Some existingIndex \<Rightarrow> playlists[existingIndex := info]
      | None \<Rightarrow> playlists @ [info])"

definition finish_save ::
  "Playlist \<Rightarrow> PlaylistType \<Rightarrow> XtreamCredentials option \<Rightarrow> PlaylistMeta \<Rightarrow> AsyncStorage
     \<Rightarrow> AsyncStorage" where
  "finish_save playlist type xtreamCredentials meta s =
     (let (playlists, s3) = getPlaylistList s;
          s4 = savePlaylistList (upsert (summary_of playlist type xtreamCredentials meta) playlists) s3
      in setActivePlaylistId (p_id playlist) s4)"

subsection \<open>Example data\<close>

text \<open>
  A store with no item and no failure to come, two channels as the parser produces them
  (the second from an entry whose \<open>tvg-logo\<close> attribute is empty), and playlists
  holding them.
\<close>

definition empty_store :: AsyncStorage where
  "empty_store = \<lparr> items = Map.empty, faults = [] \<rparr>"

definition channel_cnn :: Channel where
  "channel_cnn =
     \<lparr> c_id = ''id0'', c_name = ''CNN'', c_url = ''http://a/b.m3u8'', c_logo = Some ''x.png'',
       c_group = ''News'', c_tvgId = None, c_tvgName = None, c_drm = None, c_headers = None,
       c_isLive = Some True, c_quality = None \<rparr>"

definition channel_bbc :: Channel where
  "channel_bbc =
     \<lparr> c_id = ''id1'', c_name = ''BBC'', c_url = ''http://a/c.m3u8'', c_logo = Some [],
       c_group = ''News'', c_tvgId = None, c_tvgName = None, c_drm = None, c_headers = None,
       c_isLive = Some True, c_quality = None \<rparr>"

definition playlist_of :: "string \<Rightarrow> Channel list \<Rightarrow> Playlist" where
  "playlist_of pid channels =
     \<lparr> p_id = pid, p_name = ''My Playlist'', p_url = None, p_channels = channels,
       p_categories = [''News''], p_lastUpdated = 1700000000000 \<rparr>"

text \<open>
  The summary list as \<open>getPlaylistList\<close> reads it from a store, and the number of its
  entries for one playlist id.
\<close>

definition summary_list :: "AsyncStorage \<Rightarrow> PlaylistInfo list" where
  "summary_list s = (case items s KEY_PLAYLISTS of Some (SInfos l) \<Rightarrow> l | _ \<Rightarrow> [])"

definition summary_entries :: "string \<Rightarrow> AsyncStorage \<Rightarrow> nat" where
  "summary_entries pid s = length (filter (\<lambda>p. i_id p = pid) (summary_list s))"

text \<open>
  An empty store in which the calls to come fail as listed, and the error of a store
  that is out of space.
\<close>

definition store_failing :: "js_error option list \<Rightarrow> AsyncStorage" where
  "store_failing fs = \<lparr> items = Map.empty, faults = fs \<rparr>"

definition disk_full_error :: js_error where
  "disk_full_error = \<lparr> e_message = Some ''database or disk is full (code 13)'', e_code = Some 13 \<rparr>"

definition io_error :: js_error where
  "io_error = \<lparr> e_message = Some ''Failed to write value'', e_code = None \<rparr>"

section \<open>Playlist text parser (lib/m3u-parser.ts)\<close>

subsection \<open>More string operations\<close>

text \<open>
  \<open>toLowerCase\<close> and \<open>toUpperCase\<close>, given on character codes. Below 256 the
  upper-case letters are \<open>A\<close> to \<open>Z\<close> and the codes 192 to 222 other than 215 (the
  multiplication sign), each 32 below its lower-case form. \<open>toUpperCase\<close> is given for
  the letters \<open>a\<close> to \<open>z\<close> only: the parser applies it to a match of the quality
  expression, which consists of these letters and digits. The \<open>/i\<close> flag compares the
  upper-case forms of two characters, and without the \<open>u\<close> flag never lets an ASCII
  letter match a character outside ASCII: \<open>startsWith_ci s pat\<close> says that \<open>pat\<close>,
  a text of ASCII characters, stands at the start of \<open>s\<close> in any letter case.
\<close>

definition dquote :: char where
  "dquote = CHR 0x22"

definition toLowerCase_code :: "nat \<Rightarrow> nat" where
  "toLowerCase_code n =
     (if (65 \<le> n \<and> n \<le> 90) \<or> (192 \<le> n \<and> n \<le> 222 \<and> n \<noteq> 215) then n + 32 else n)"

definition toUpperCase_code :: "nat \<Rightarrow> nat" where
  "toUpperCase_code n = (if 97 \<le> n \<and> n \<le> 122 then n - 32 else n)"

definition toLowerCase :: "string \<Rightarrow> string" where
  "toLowerCase s = map (\<lambda>c. char_of (toLowerCase_code (of_char c))) s"

definition toUpperCase :: "string \<Rightarrow> string" where
  "toUpperCase s = map (\<lambda>c. char_of (toUpperCase_code (of_char c))) s"

fun startsWith_ci :: "string \<Rightarrow> string \<Rightarrow> bool" where
  "startsWith_ci s [] = True"
| "startsWith_ci [] (p # ps) = False"
| "startsWith_ci (c # cs) (p # ps) =
     (if toUpperCase_code (of_char c) = toUpperCase_code (of_char p)
      then startsWith_ci cs ps else False)"

fun join :: "string \<Rightarrow> string list \<Rightarrow> string" where
  "join sep [] = []"
| "join sep [p] = p"
| "join sep (p # q # ps) = p @ sep @ join sep (q # ps)"

text \<open>\<open>a || b\<close> on an optional string: \<open>undefined\<close> and the empty string are falsy.\<close>

definition truthy :: "string option \<Rightarrow> bool" where
  "truthy v = (case v of None \<Rightarrow> False | Some x \<Rightarrow> x \<noteq> [])"

definition or_else :: "string option \<Rightarrow> string \<Rightarrow> string" where
  "or_else v d = (case v of None \<Rightarrow> d | Some x \<Rightarrow> if x = [] then d else x)"

subsection \<open>The regular expressions of parseExtInf\<close>

text \<open>
  \<open>line.match(/key="([^"]*)"/i)\<close>: the leftmost place where \<open>key="\<close> stands, in any
  letter case, and is followed later by a closing quote; the group is the text up to that
  quote. Where no quote follows, the class \<open>[^"]*\<close> cannot be cut short to make one
  appear, and the search goes on to the right.
\<close>

fun match_attr :: "string \<Rightarrow> string \<Rightarrow> string option" where
  "match_attr key [] = None"
| "match_attr key (c # cs) =
     (if startsWith_ci (c # cs) (key @ [CHR ''='', dquote])
      then (let rest = drop (length key + 2) (c # cs)
            in if dquote \<in> set rest
               then Some (takeWhile (\<lambda>x. x \<noteq> dquote) rest)
               else match_attr key cs)
      else match_attr key cs)"

text \<open>
  \<open>/\b(4K|UHD|FHD|HD|SD|720p|1080p|480p|360p)\b/i\<close>. Every alternative begins and ends
  with a word character, so the first \<open>\b\<close> holds exactly when the character before is
  not a word character (or there is none), and the second when the character after is not
  one. The group is the text as it stands in the line.
\<close>

definition isWordChar :: "char \<Rightarrow> bool" where
  "isWordChar c =
     (let n = of_char c :: nat
      in (48 \<le> n \<and> n \<le> 57) \<or> (65 \<le> n \<and> n \<le> 90) \<or> (97 \<le> n \<and> n \<le> 122) \<or> n = 95)"

definition quality_tokens :: "string list" where
  "quality_tokens = [''4K'', ''UHD'', ''FHD'', ''HD'', ''SD'', ''720p'', ''1080p'', ''480p'', ''360p'']"

definition match_token_at :: "string \<Rightarrow> string option" where
  "match_token_at s =
     find (\<lambda>tok. if startsWith_ci s tok
                  then (case drop (length tok) s of [] \<Rightarrow> True | d # _ \<Rightarrow> \<not> isWordChar d)
                  else False)
          quality_tokens"

fun match_quality :: "bool \<Rightarrow> string \<Rightarrow> string option" where
  "match_quality prevWord [] = None"
| "match_quality prevWord (c # cs) =
     (case (if prevWord then None else match_token_at (c # cs)) of
        Some tok \<Rightarrow> Some (take (length tok) (c # cs))
      | None \<Rightarrow> match_quality (isWordChar c) cs)"

text \<open>
  \<open>/,(.+)$/\<close>: the leftmost comma after which at least one character follows and none
  up to the end of the line is a line terminator (\<open>.\<close> does not match one, and \<open>$\<close>
  without the \<open>m\<close> flag is the end of the text). The group is all the text after that
  comma. Of the line terminators, line feed and carriage return lie below 256.
\<close>

definition isLineTerminator :: "char \<Rightarrow> bool" where
  "isLineTerminator c = (c = CHR 0x0A \<or> c = CHR 0x0D)"

fun match_name :: "string \<Rightarrow> string option" where
  "match_name [] = None"
| "match_name (c # cs) =
     (if c = CHR '','' \<and> cs \<noteq> [] \<and> list_all (\<lambda>x. \<not> isLineTerminator x) cs
      then Some cs
      else match_name cs)"

record PartialChannel =
  pc_name :: "string option"
  pc_logo :: "string option"
  pc_group :: "string option"
  pc_tvgId :: "string option"
  pc_tvgName :: "string option"
  pc_quality :: "string option"

definition empty_partial :: PartialChannel where
  "empty_partial =
     \<lparr> pc_name = None, pc_logo = None, pc_group = None, pc_tvgId = None, pc_tvgName = None,
       pc_quality = None \<rparr>"

definition parseExtInf :: "string \<Rightarrow> PartialChannel" where
  "parseExtInf line =
     \<lparr> pc_name = map_option trim (match_name line),
       pc_logo = match_attr ''tvg-logo'' line,
       pc_group = match_attr ''group-title'' line,
       pc_tvgId = match_attr ''tvg-id'' line,
       pc_tvgName = match_attr ''tvg-name'' line,
       pc_quality = map_option toUpperCase (match_quality False line) \<rparr>"

subsection \<open>parseDRM\<close>

definition empty_drm :: DRMInfo where
  "empty_drm =
     \<lparr> drm_type = None, drm_licenseServer = None, drm_headers = None, drm_certificateUrl = None \<rparr>"

text \<open>\<open>headers[k] = v\<close>: a key that is present keeps its place.\<close>

fun set_header :: "string \<Rightarrow> string \<Rightarrow> (string \<times> string) list \<Rightarrow> (string \<times> string) list" where
  "set_header k v [] = [(k, v)]"
| "set_header k v ((k', v') # hs) =
     (if k' = k then (k, v) # hs else (k', v') # set_header k v hs)"

text \<open>\<open>line.split("=").slice(1).join("=").trim()\<close> and \<open>line.split("=")[1]?.toLowerCase().trim()\<close>.\<close>

definition after_equals :: "string \<Rightarrow> string" where
  "after_equals line = trim (join ''='' (tl (split (CHR ''='') line)))"

definition license_type_text :: "string \<Rightarrow> string option" where
  "license_type_text line =
     (case split (CHR ''='') line of
        _ # p # _ \<Rightarrow> Some (trim (toLowerCase p))
      | _ \<Rightarrow> None)"

definition license_type :: "string option \<Rightarrow> DRMType option \<Rightarrow> DRMType option" where
  "license_type type old =
     (case type of
        None \<Rightarrow> old
      | Some ty \<Rightarrow>
          if includes_str ty ''widevine'' then Some Widevine
          else if includes_str ty ''playready'' then Some Playready
          else if includes_str ty ''fairplay'' then Some Fairplay
          else if includes_str ty ''clearkey'' then Some Clearkey
          else old)"

record DRMScan =
  ds_drm :: DRMInfo
  ds_headers :: "(string \<times> string) list"
  ds_foundDRM :: bool
  ds_foundHeaders :: bool

definition parseDRM_line :: "DRMScan \<Rightarrow> string \<Rightarrow> DRMScan" where
  "parseDRM_line st line =
     (let st1 = (if includes_str line ''#KODIPROP:inputstream.adaptive.license_type=''
                 then st\<lparr>ds_drm := (ds_drm st)\<lparr>drm_type :=
                                   license_type (license_type_text line) (drm_type (ds_drm st))\<rparr>,
                         ds_foundDRM := True\<rparr>
                 else st);
          st2 = (if includes_str line ''#KODIPROP:inputstream.adaptive.license_key=''
                 then st1\<lparr>ds_drm := (ds_drm st1)\<lparr>drm_licenseServer := Some (after_equals line)\<rparr>,
                          ds_foundDRM := True\<rparr>
                 else st1);
          st3 = (if includes_str line ''#EXTVLCOPT:http-user-agent=''
                 then st2\<lparr>ds_headers := set_header ''User-Agent'' (after_equals line) (ds_headers st2),
                          ds_foundHeaders := True\<rparr>
                 else st2)
      in if includes_str line ''#EXTVLCOPT:http-referrer=''
         then st3\<lparr>ds_headers := set_header ''Referer'' (after_equals line) (ds_headers st3),
                  ds_foundHeaders := True\<rparr>
         else st3)"

text \<open>The window is the lines \<open>max(0, currentIndex - 5), ..., currentIndex - 1\<close>.\<close>

definition parseDRM :: "string list \<Rightarrow> nat \<Rightarrow> DRMInfo option \<times> (string \<times> string) list option" where
  "parseDRM lines currentIndex =
     (let st = foldl parseDRM_line
                 \<lparr> ds_drm = empty_drm, ds_headers = [], ds_foundDRM = False, ds_foundHeaders = False \<rparr>
                 (map (\<lambda>i. lines ! i) [currentIndex - 5 ..< currentIndex])
      in (if ds_foundDRM st then Some (ds_drm st) else None,
          if ds_foundHeaders st then Some (ds_headers st) else None))"

subsection \<open>parseM3U\<close>

text \<open>
  \<open>generateId\<close> draws on \<open>Math.random\<close> and \<open>lastUpdated\<close> is \<open>Date.now()\<close>: the
  parser takes the ids it will generate, in order, and the time as arguments (after the
  collation, see below). A \<open>Set\<close>
  keeps its elements in the order of their first insertion. The variable
  \<open>extinfIndex\<close> is assigned and never read, and is left out.
\<close>

definition set_add :: "'a \<Rightarrow> 'a list \<Rightarrow> 'a list" where
  "set_add x xs = (if x \<in> set xs then xs else xs @ [x])"

record ParseState =
  ps_channels :: "Channel list"
  ps_categoriesSet :: "string list"
  ps_currentChannel :: PartialChannel

definition parse_step :: "(nat \<Rightarrow> string) \<Rightarrow> string list \<Rightarrow> ParseState \<Rightarrow> nat \<Rightarrow> ParseState" where
  "parse_step ids lines st i =
     (let line = lines ! i
      in if startsWith line ''#EXTINF:'' then st\<lparr>ps_currentChannel := parseExtInf line\<rparr>
         else if line \<noteq> [] \<and> \<not> startsWith line ''#'' \<and> truthy (pc_name (ps_currentChannel st))
         then
           (let (drm, headers) = parseDRM lines i;
                currentChannel = ps_currentChannel st;
                channel =
                  \<lparr> c_id = ids (length (ps_channels st)),
                    c_name = or_else (pc_name currentChannel) ''Unknown Channel'',
                    c_url = line,
                    c_logo = pc_logo currentChannel,
                    c_group = or_else (pc_group currentChannel) ''Uncategorized'',
                    c_tvgId = pc_tvgId currentChannel,
                    c_tvgName = pc_tvgName currentChannel,
                    c_drm = drm,
                    c_headers = headers,
                    c_isLive = Some True,
                    c_quality = pc_quality currentChannel \<rparr>
            in st\<lparr>ps_channels := ps_channels st @ [channel],
                  ps_categoriesSet := set_add (c_group channel) (ps_categoriesSet st),
                  ps_currentChannel := empty_partial\<rparr>)
         else st)"

text \<open>
  \<open>String.prototype.localeCompare\<close> is the collation of the JavaScript runtime and of
  its locale, not a function of the sources: the parser takes it as the argument
  \<open>localeCompare\<close>. The comparison function handed to \<open>sort\<close> puts
  \<open>Uncategorized\<close> after everything and asks the collation about any other pair.
\<close>

definition category_order :: "(string \<Rightarrow> string \<Rightarrow> int) \<Rightarrow> string \<Rightarrow> string \<Rightarrow> int" where
  "category_order localeCompare a b =
     (if a = ''Uncategorized'' then 1
      else if b = ''Uncategorized'' then - 1
      else localeCompare a b)"

text \<open>
  \<open>Array.prototype.sort\<close> with a comparison function is a stable sort: the model is
  insertion sort, each element put before the first one it does not come after.
\<close>

fun insert_by :: "('a \<Rightarrow> 'a \<Rightarrow> int) \<Rightarrow> 'a \<Rightarrow> 'a list \<Rightarrow> 'a list" where
  "insert_by cmp x [] = [x]"
| "insert_by cmp x (y # ys) = (if cmp x y \<le> 0 then x # y # ys else y # insert_by cmp x ys)"

definition array_sort :: "('a \<Rightarrow> 'a \<Rightarrow> int) \<Rightarrow> 'a list \<Rightarrow> 'a list" where
  "array_sort cmp xs = foldr (insert_by cmp) xs []"

definition parseM3U ::
  "(string \<Rightarrow> string \<Rightarrow> int) \<Rightarrow> (nat \<Rightarrow> string) \<Rightarrow> int \<Rightarrow> string \<Rightarrow> string option \<Rightarrow> Playlist" where
  "parseM3U localeCompare ids now content playlistName =
     (let lines = map trim (split (CHR 0x0A) content);
          st = foldl (parse_step ids lines)
                 \<lparr> ps_channels = [], ps_categoriesSet = [], ps_currentChannel = empty_partial \<rparr>
                 [0 ..< length lines];
          categories = array_sort (category_order localeCompare) (ps_categoriesSet st)
      in \<lparr> p_id = ids (length (ps_channels st)),
           p_name = (case playlistName of None \<Rightarrow> ''My Playlist'' | Some n \<Rightarrow> n),
           p_url = None,
           p_channels = ps_channels st,
           p_categories = categories,
           p_lastUpdated = now \<rparr>)"

subsection \<open>fetchPlaylistContent and fetchAndParseM3U\<close>

text \<open>
  The network is the list of the outcomes of the \<open>fetch\<close> calls to come (a rejected
  promise, or a response with its \<open>ok\<close> flag and its body, \<open>None\<close> when reading the
  body fails) and the log of the requests made, each an URL with its headers. With no
  outcome left a call is rejected.
\<close>

datatype fetch_outcome = FetchRejected | Response bool "string option"

record Network =
  net_outcomes :: "fetch_outcome list"
  net_requests :: "(string \<times> (string \<times> string) list) list"

definition fetch :: "string \<Rightarrow> (string \<times> string) list \<Rightarrow> Network \<Rightarrow> fetch_outcome \<times> Network" where
  "fetch url headers net =
     (case net_outcomes net of
        [] \<Rightarrow> (FetchRejected, net\<lparr>net_requests := net_requests net @ [(url, headers)]\<rparr>)
      | r # rs \<Rightarrow> (r, net\<lparr>net_outcomes := rs, net_requests := net_requests net @ [(url, headers)]\<rparr>))"

definition PRYSM_USER_AGENT :: string where
  "PRYSM_USER_AGENT = ''Prysm/1.0.0''"

definition fetchPlaylistContent :: "string \<Rightarrow> Network \<Rightarrow> string option \<times> Network" where
  "fetchPlaylistContent url net =
     (case fetch url [(''User-Agent'', PRYSM_USER_AGENT), (''Accept'', ''*/*'')] net of
        (Response ok (Some content), net') \<Rightarrow>
          if ok \<and> (includes_str content ''#EXTM3U'' \<or> includes_str content ''#EXTINF'')
          then (Some content, net')
          else (None, net')
      | (_, net') \<Rightarrow> (None, net'))"

definition fetch_failure :: js_error where
  "fetch_failure =
     \<lparr> e_message = Some (''Could not fetch playlist. The server may be blocking requests ''
                        @ ''or require specific app authentication.''),
       e_code = None \<rparr>"

definition fetchAndParseM3U ::
  "(string \<Rightarrow> string \<Rightarrow> int) \<Rightarrow> (nat \<Rightarrow> string) \<Rightarrow> int \<Rightarrow> string \<Rightarrow> Network
     \<Rightarrow> (js_error + Playlist) \<times> Network" where
  "fetchAndParseM3U localeCompare ids now url net =
     (case fetchPlaylistContent url net of
        (content, net') \<Rightarrow>
          if \<not> truthy content then (Inl fetch_failure, net')
          else
            (let urlParts = split (CHR ''/'') url;
                 fileName = replace (replace (hd (split (CHR ''?'') (last urlParts))) ''.m3u'' [])
                                    ''.m3u8'' [];
                 playlistName = or_else (Some fileName) ''Remote Playlist'';
                 playlist = parseM3U localeCompare ids now (the content) (Some playlistName)
             in (Inr (playlist\<lparr>p_url := Some url\<rparr>), net')))"

subsection \<open>Loop invariants and example data of the parser\<close>


definition categories_inv :: "ParseState \<Rightarrow> bool" where
  "categories_inv st \<longleftrightarrow>
     set (ps_categoriesSet st) = c_group ` set (ps_channels st) \<and> distinct (ps_categoriesSet st)"



definition example_ids :: "nat \<Rightarrow> string" where
  "example_ids n = ''id'' @ decimal n"


definition example_m3u :: string where
  "example_m3u =
     ''#EXTM3U'' @ [CHR 0x0A]
     @ ''#EXTINF:-1 tvg-logo='' @ [dquote] @ ''x.png'' @ [dquote]
     @ '' group-title='' @ [dquote] @ ''News'' @ [dquote] @ '',CNN'' @ [CHR 0x0A]
     @ ''http://a/b.m3u8''"

definition next_outcome :: "Network \<Rightarrow> fetch_outcome" where
  "next_outcome net = (case net_outcomes net of [] \<Rightarrow> FetchRejected | r # _ \<Rightarrow> r)"

text \<open>
  What the sort needs of the collation: any two strings are comparable and the order is
  transitive. ECMAScript requires \<open>localeCompare\<close> to be a consistent comparison
  function that totally orders all strings, which gives both.
\<close>

definition consistent_comparator :: "(string \<Rightarrow> string \<Rightarrow> int) \<Rightarrow> bool" where
  "consistent_comparator cmp \<longleftrightarrow>
     (\<forall>a b. cmp a b \<le> 0 \<or> cmp b a \<le> 0)
     \<and> (\<forall>a b c. cmp a b \<le> 0 \<and> cmp b c \<le> 0 \<longrightarrow> cmp a c \<le> 0)"

text \<open>
  One such collation. Strings are compared character by character without regard to
  letter case; strings that differ in case only are ordered by their first difference,
  the lower-case letter first. On words of the letters \<open>A\<close> to \<open>Z\<close> this is the
  order of the default collation of the JavaScript runtimes: \<open>b\<close> comes before
  \<open>B\<close>, which comes before \<open>c\<close>, while in the order of the character codes \<open>B\<close>
  comes before \<open>b\<close>. (On other characters it follows the character codes, which the
  runtimes do not.)
\<close>

fun compare_codes :: "nat list \<Rightarrow> nat list \<Rightarrow> int" where
  "compare_codes [] [] = 0"
| "compare_codes [] (b # bs) = - 1"
| "compare_codes (a # as) [] = 1"
| "compare_codes (a # as) (b # bs) =
     (if a < b then - 1 else if b < a then 1 else compare_codes as bs)"

definition collation :: "string \<Rightarrow> string \<Rightarrow> int" where
  "collation a b =
     (let r = compare_codes (map (\<lambda>c. toLowerCase_code (of_char c)) a)
                            (map (\<lambda>c. toLowerCase_code (of_char c)) b)
      in if r \<noteq> 0 then r else compare_codes (map of_char b) (map of_char a))"

text \<open>
  The playlist text with the groups \<open>B\<close>, none and \<open>b\<close>, in this order:
  \<open>#EXTINF:-1 group-title="B",One\nhttp://a/1\n#EXTINF:-1,Two\nhttp://a/2\n#EXTINF:-1 group-title="b",Three\nhttp://a/3\<close>.
\<close>

definition example_groups_m3u :: string where
  "example_groups_m3u =
     ''#EXTINF:-1 group-title='' @ [dquote] @ ''B'' @ [dquote] @ '',One'' @ [CHR 0x0A]
     @ ''http://a/1'' @ [CHR 0x0A]
     @ ''#EXTINF:-1,Two'' @ [CHR 0x0A]
     @ ''http://a/2'' @ [CHR 0x0A]
     @ ''#EXTINF:-1 group-title='' @ [dquote] @ ''b'' @ [dquote] @ '',Three'' @ [CHR 0x0A]
     @ ''http://a/3''"



text \<open>The default playlist name \<open>fetchAndParseM3U\<close> derives from the URL.\<close>

definition url_playlist_name :: "string \<Rightarrow> string" where
  "url_playlist_name url =
     or_else (Some (replace (replace (hd (split (CHR ''?'') (last (split (CHR ''/'') url))))
                                     ''.m3u'' [])
                            ''.m3u8'' []))
             ''Remote Playlist''"

definition network_answering :: "fetch_outcome list \<Rightarrow> Network" where
  "network_answering outcomes = \<lparr> net_outcomes = outcomes, net_requests = [] \<rparr>"

section \<open>Quality variant resolver (lib/hls-quality-parser.ts)\<close>

text \<open>
  \<open>parseHLSManifest\<close> from the point where the scan of the manifest lines has filled
  the array \<open>variants\<close> (the sort, the labelling and the deduplication); that array is
  the argument of \<open>variant_qualities\<close>. Bandwidths and heights are the integers that
  \<open>parseInt\<close> and \<open>Number\<close> read from decimal attributes.
\<close>

record Resolution =
  r_width :: int
  r_height :: int

record HLSVariant =
  v_bandwidth :: int
  v_resolution :: "Resolution option"
  v_url :: string
  v_name :: "string option"

record VideoQuality =
  q_label :: string
  q_resolution :: string
  q_bitrate :: "int option"
  q_url :: "string option"

definition decimal_int :: "int \<Rightarrow> string" where
  "decimal_int i = (if i < 0 then ''-'' @ decimal (nat (- i)) else decimal (nat i))"

text \<open>The label and the resolution text of a variant, by height or else by bandwidth.\<close>

definition height_tier :: "int \<Rightarrow> string \<times> string" where
  "height_tier height =
     (if height \<ge> 2160 then (''4K'', ''2160p'')
      else if height \<ge> 1440 then (''1440p'', ''1440p'')
      else if height \<ge> 1080 then (''1080p'', ''1080p'')
      else if height \<ge> 720 then (''720p'', ''720p'')
      else if height \<ge> 480 then (''480p'', ''480p'')
      else if height \<ge> 360 then (''360p'', ''360p'')
      else (decimal_int height @ ''p'', decimal_int height @ ''p''))"

text \<open>\<open>Math.round(bandwidth / 1000)\<close> rounds halves up.\<close>

definition bandwidth_tier :: "int \<Rightarrow> string \<times> string" where
  "bandwidth_tier bandwidth =
     (let kbps = (bandwidth + 500) div 1000
      in if kbps \<ge> 8000 then (''High'', ''High Quality'')
         else if kbps \<ge> 4000 then (''Medium-High'', ''Medium-High'')
         else if kbps \<ge> 2000 then (''Medium'', ''Medium Quality'')
         else if kbps \<ge> 1000 then (''Low'', ''Low Quality'')
         else (''Very Low'', ''Very Low Quality''))"

definition to_quality :: "HLSVariant \<Rightarrow> VideoQuality" where
  "to_quality variant =
     (let (label, resolution) =
            (case v_resolution variant of
               Some res \<Rightarrow> height_tier (r_height res)
             | None \<Rightarrow> bandwidth_tier (v_bandwidth variant))
      in \<lparr> q_label = or_else (v_name variant) label, q_resolution = resolution,
           q_bitrate = Some (v_bandwidth variant), q_url = Some (v_url variant) \<rparr>)"

text \<open>\<open>quality.bitrate && exists.bitrate && quality.bitrate > exists.bitrate\<close>.\<close>

definition higher_bitrate :: "VideoQuality \<Rightarrow> VideoQuality \<Rightarrow> bool" where
  "higher_bitrate quality exists =
     (case (q_bitrate quality, q_bitrate exists) of
        (Some b, Some e) \<Rightarrow> b \<noteq> 0 \<and> e \<noteq> 0 \<and> b > e
      | _ \<Rightarrow> False)"

text \<open>
  The callback of \<open>reduce\<close>. \<open>acc.find\<close> gives the first entry with the resolution
  text of \<open>quality\<close> and \<open>acc.indexOf\<close> the place of that entry, which
  \<open>findIndex\<close> gives at once.
\<close>

definition dedupe_step :: "VideoQuality list \<Rightarrow> VideoQuality \<Rightarrow> VideoQuality list" where
  "dedupe_step acc quality =
     (case findIndex (\<lambda>q. q_resolution q = q_resolution quality) acc of
        None \<Rightarrow> acc @ [quality]
      | Some index \<Rightarrow>
          if higher_bitrate quality (acc ! index) then acc[index := quality] else acc)"

definition variant_qualities :: "HLSVariant list \<Rightarrow> VideoQuality list" where
  "variant_qualities variants =
     (if variants = [] then []
      else foldl dedupe_step []
             (map to_quality (array_sort (\<lambda>a b. v_bandwidth b - v_bandwidth a) variants)))"

text \<open>The bitrate of a quality as a number, and two variants of height 720.\<close>

definition bitrate_value :: "VideoQuality \<Rightarrow> int" where
  "bitrate_value q = (case q_bitrate q of Some b \<Rightarrow> b | None \<Rightarrow> 0)"

definition variant_720 :: "int \<Rightarrow> string \<Rightarrow> HLSVariant" where
  "variant_720 bandwidth url =
     \<lparr> v_bandwidth = bandwidth, v_resolution = Some \<lparr> r_width = 1280, r_height = 720 \<rparr>,
       v_url = url, v_name = None \<rparr>"

section \<open>Storage keys do not collide\<close>

lemma decimal_nonempty: "decimal n \<noteq> []"
  by (subst decimal.simps) simp

lemma digit_code: "d < 10 \<Longrightarrow> (of_char (digit d) :: nat) = 48 + d"
  by (simp add: digit_def)

lemma digit_inj: "a < 10 \<Longrightarrow> b < 10 \<Longrightarrow> digit a = digit b \<Longrightarrow> a = b"
proof -
  assume a: "a < 10" and b: "b < 10" and e: "digit a = digit b"
  from e have "(of_char (digit a) :: nat) = of_char (digit b)" by simp
  with a b show "a = b" by (simp add: digit_code)
qed

lemma digit_not_underscore: "d < 10 \<Longrightarrow> digit d \<noteq> CHR ''_''"
proof
  assume d: "d < 10" and e: "digit d = CHR ''_''"
  from e have "(of_char (digit d) :: nat) = of_char (CHR ''_'')" by simp
  with d show False by (simp add: digit_code)
qed

lemma decimal_inj: "decimal a = decimal b \<Longrightarrow> a = b"
proof (induction a arbitrary: b rule: decimal.induct)
  case (1 n)
  show ?case
  proof (cases "n < 10")
    case True
    then have dn: "decimal n = [digit n]" by (subst decimal.simps) simp
    show ?thesis
    proof (cases "b < 10")
      case True
      then have "decimal b = [digit b]" by (subst decimal.simps) simp
      with dn "1.prems" have "digit n = digit b" by simp
      with \<open>n < 10\<close> True show ?thesis by (rule digit_inj)
    next
      case False
      then have "decimal b = decimal (b div 10) @ [digit (b mod 10)]"
        by (subst decimal.simps) simp
      with dn "1.prems" have "decimal (b div 10) = []" by simp
      then show ?thesis by (simp add: decimal_nonempty)
    qed
  next
    case False
    then have dn: "decimal n = decimal (n div 10) @ [digit (n mod 10)]"
      by (subst decimal.simps) simp
    show ?thesis
    proof (cases "b < 10")
      case True
      then have "decimal b = [digit b]" by (subst decimal.simps) simp
      with dn "1.prems" have "decimal (n div 10) = []" by simp
      then show ?thesis by (simp add: decimal_nonempty)
    next
      case b: False
      then have "decimal b = decimal (b div 10) @ [digit (b mod 10)]"
        by (subst decimal.simps) simp
      with dn "1.prems" have e1: "decimal (n div 10) = decimal (b div 10)"
        and e2: "digit (n mod 10) = digit (b mod 10)" by simp_all
      from "1.IH" [OF False e1] have "n div 10 = b div 10" .
      moreover from e2 have "n mod 10 = b mod 10" by (intro digit_inj) simp_all
      ultimately show ?thesis by (metis div_mult_mod_eq)
    qed
  qed
qed

lemma chunk_key_inj: "chunk_key pid i = chunk_key pid j \<longleftrightarrow> i = j"
  by (auto simp: chunk_key_def dest: decimal_inj)

lemma meta_key_inj: "meta_key a = meta_key b \<longleftrightarrow> a = b"
  by (simp add: meta_key_def)

lemma meta_chunk_key: "meta_key a \<noteq> chunk_key b i"
  by (simp add: meta_key_def chunk_key_def KEY_PLAYLIST_META_def KEY_PLAYLIST_CHUNKS_def)

lemma keys_distinct:
  "KEY_PLAYLISTS \<noteq> meta_key a" "KEY_PLAYLISTS \<noteq> chunk_key a i"
  "KEY_ACTIVE_PLAYLIST_ID \<noteq> meta_key a" "KEY_ACTIVE_PLAYLIST_ID \<noteq> chunk_key a i"
  "KEY_ACTIVE_PLAYLIST_ID \<noteq> KEY_PLAYLISTS"
  by (simp_all add: meta_key_def chunk_key_def KEY_PLAYLIST_META_def KEY_PLAYLIST_CHUNKS_def
      KEY_PLAYLISTS_def KEY_ACTIVE_PLAYLIST_ID_def)

section \<open>The store and the two loops\<close>

lemma setItem_ok:
  "faults s = [] \<or> hd (faults s) = None \<Longrightarrow>
   setItem k v s = (Inr (), s\<lparr>items := (items s)(k \<mapsto> v), faults := tl (faults s)\<rparr>)"
  by (cases "faults s") (auto simp: setItem_def next_fault_def)

lemma setItem_fail:
  "faults s = Some e # fs \<Longrightarrow> setItem k v s = (Inl e, s\<lparr>faults := fs\<rparr>)"
  by (simp add: setItem_def next_fault_def)

lemma getItem_ok:
  "faults s = [] \<Longrightarrow> getItem k s = (Inr (items s k), s)"
  by (simp add: getItem_def next_fault_def)

lemma chunks_written_same [simp]: "chunks_written pid chs i i s = s"
  by (simp add: chunks_written_def)

lemma find_chunk_key_later:
  "i < k \<Longrightarrow> find (\<lambda>j. chunk_key pid i = chunk_key pid j) [k ..< n] = None"
  by (simp add: find_None_iff chunk_key_inj)

lemma chunks_written_step:
  assumes "i < k"
  shows "chunks_written pid chs (Suc i) k
           (s\<lparr>items := (items s)(chunk_key pid i \<mapsto> SChunk (chunk_of chs i)),
              faults := tl (faults s)\<rparr>)
         = chunks_written pid chs i k s"
proof -
  have l: "[i ..< k] = i # [Suc i ..< k]"
    using assms by (simp add: upt_conv_Cons)
  have ki: "k - i = Suc (k - Suc i)"
    using assms by simp
  have d: "drop (k - Suc i) (tl (faults s)) = drop (k - i) (faults s)"
    unfolding ki by (cases "faults s") simp_all
  show ?thesis
    unfolding chunks_written_def l
    by (auto simp: d fun_eq_iff find_chunk_key_later split: option.splits)
qed

lemma save_chunks_prefix:
  "i \<le> k \<Longrightarrow> k \<le> n \<Longrightarrow> \<forall>f \<in> set (take (k - i) (faults s)). f = None \<Longrightarrow>
   save_chunks pid chs n meta i s = save_chunks pid chs n meta k (chunks_written pid chs i k s)"
proof (induction pid chs n meta i s rule: save_chunks.induct)
  case (1 pid channels chunkCount meta i s)
  show ?case
  proof (cases "i = k")
    case True
    then show ?thesis by simp
  next
    case False
    with "1.prems" have ik: "i < k" and "i < chunkCount" by simp_all
    have ki: "k - i = Suc (k - (i + 1))"
      using ik by simp
    have h: "faults s = [] \<or> hd (faults s) = None"
      using "1.prems"(3) unfolding ki by (cases "faults s") auto
    let ?s1 = "s\<lparr>items := (items s)(chunk_key pid i \<mapsto> SChunk (chunk_of channels i)),
                  faults := tl (faults s)\<rparr>"
    have st: "setItem (chunk_key pid i) (SChunk (chunk_of channels i)) s = (Inr (), ?s1)"
      using h by (rule setItem_ok)
    have rest: "\<forall>f \<in> set (take (k - (i + 1)) (faults ?s1)). f = None"
      using "1.prems"(3) unfolding ki by (cases "faults s") auto
    have "save_chunks pid channels chunkCount meta i s
            = save_chunks pid channels chunkCount meta (i + 1) ?s1"
      using \<open>i < chunkCount\<close> st by (subst save_chunks.simps) simp
    also have "\<dots> = save_chunks pid channels chunkCount meta k
                       (chunks_written pid channels (i + 1) k ?s1)"
      using ik "1.prems"(2) rest
      by (intro "1.IH" [OF \<open>i < chunkCount\<close> st [symmetric] refl]) simp_all
    also have "chunks_written pid channels (i + 1) k ?s1 = chunks_written pid channels i k s"
      using chunks_written_step [OF ik] by simp
    finally show ?thesis .
  qed
qed

lemma save_chunks_done: "save_chunks pid chs n meta n s = (Inr meta, s)"
  by (subst save_chunks.simps) simp

lemma save_chunks_ok:
  "\<forall>f \<in> set (take n (faults s)). f = None \<Longrightarrow>
   save_chunks pid chs n meta 0 s = (Inr meta, chunks_written pid chs 0 n s)"
  using save_chunks_prefix [of 0 n n s pid chs meta] by (simp add: save_chunks_done)

lemma save_chunks_at_fault:
  assumes "k < n" and "faults s = Some e # fs"
  shows "save_chunks pid chs n meta k s =
           (if isDiskFull e then
              (case setItem (meta_key pid)
                      (SMeta (meta\<lparr>m_chunkCount := k, m_totalChannels := k * CHUNK_SIZE\<rparr>))
                      (s\<lparr>faults := fs\<rparr>) of
                 (Inr _, s'') \<Rightarrow>
                   (Inr (meta\<lparr>m_chunkCount := k, m_totalChannels := k * CHUNK_SIZE\<rparr>), s'')
               | (Inl e2, s'') \<Rightarrow> (Inl e2, s''))
            else (Inl e, s\<lparr>faults := fs\<rparr>))"
  using assms by (subst save_chunks.simps) (simp add: setItem_fail Let_def)

lemma save_chunks_fault:
  assumes "k < n" and "faults s = replicate k None @ Some e # fs"
  shows "save_chunks pid chs n meta 0 s =
           save_chunks pid chs n meta k (chunks_written pid chs 0 k s)"
    and "faults (chunks_written pid chs 0 k s) = Some e # fs"
proof -
  have "\<forall>f \<in> set (take (k - 0) (faults s)). f = None"
    using assms(2) by simp
  then show "save_chunks pid chs n meta 0 s =
           save_chunks pid chs n meta k (chunks_written pid chs 0 k s)"
    using assms(1) by (intro save_chunks_prefix) simp_all
  show "faults (chunks_written pid chs 0 k s) = Some e # fs"
    using assms(2) by (simp add: chunks_written_def)
qed

lemma find_upt_eq: "i \<le> j \<Longrightarrow> j < k \<Longrightarrow> find (\<lambda>j'. j = j') [i ..< k] = Some j"
proof (induction "j - i" arbitrary: i)
  case 0
  then have "[i ..< k] = j # [Suc j ..< k]" by (simp add: upt_conv_Cons)
  then show ?case by simp
next
  case (Suc d)
  then have l: "[i ..< k] = i # [Suc i ..< k]" and n: "j \<noteq> i" by (simp_all add: upt_conv_Cons)
  have "find (\<lambda>j'. j = j') [Suc i ..< k] = Some j"
    using Suc.hyps(2) Suc.prems by (intro Suc.hyps(1)) simp_all
  with n show ?case unfolding l by simp
qed

lemma items_chunks_written_in:
  "i \<le> j \<Longrightarrow> j < k \<Longrightarrow>
   items (chunks_written pid chs i k s) (chunk_key pid j) = Some (SChunk (chunk_of chs j))"
  by (simp add: chunks_written_def chunk_key_inj find_upt_eq)

lemma items_chunks_written_out:
  "\<forall>j. i \<le> j \<and> j < k \<longrightarrow> key \<noteq> chunk_key pid j \<Longrightarrow>
   items (chunks_written pid chs i k s) key = items s key"
proof -
  assume "\<forall>j. i \<le> j \<and> j < k \<longrightarrow> key \<noteq> chunk_key pid j"
  then have "find (\<lambda>j. key = chunk_key pid j) [i ..< k] = None"
    by (simp add: find_None_iff)
  then show ?thesis by (simp add: chunks_written_def)
qed

lemma faults_chunks_written [simp]:
  "faults (chunks_written pid chs i k s) = drop (k - i) (faults s)"
  by (simp add: chunks_written_def)

lemma load_chunks_step:
  assumes "faults s = []" and "i < n"
  shows "load_chunks pid n i acc s = load_chunks pid n (i + 1) (acc @ chunk_channels s pid i) s"
proof -
  have g: "getItem (chunk_key pid i) s = (Inr (items s (chunk_key pid i)), s)"
    using assms(1) by (rule getItem_ok)
  show ?thesis
    using assms(2) g
    by (subst load_chunks.simps)
       (simp add: chunk_channels_def split: option.splits stored.splits)
qed

lemma load_chunks_ok:
  "faults s = [] \<Longrightarrow>
   load_chunks pid n i acc s = (acc @ concat (map (chunk_channels s pid) [i ..< n]), s)"
proof (induction "n - i" arbitrary: i acc)
  case 0
  then show ?case by (subst load_chunks.simps) simp
next
  case (Suc d)
  then have lt: "i < n" and d: "d = n - (i + 1)" by simp_all
  have l: "[i ..< n] = i # [i + 1 ..< n]"
    using lt by (simp add: upt_conv_Cons)
  have "load_chunks pid n i acc s = load_chunks pid n (i + 1) (acc @ chunk_channels s pid i) s"
    using Suc.prems lt by (rule load_chunks_step)
  also have "\<dots> = ((acc @ chunk_channels s pid i)
                      @ concat (map (chunk_channels s pid) [i + 1 ..< n]), s)"
    using d Suc.prems by (rule Suc.hyps(1))
  finally show ?case unfolding l by simp
qed

section \<open>Chunks, summary list and active id\<close>

lemma chunk_of_eq:
  "chunk_of chs i = map minimizeChannel (take CHUNK_SIZE (drop (i * CHUNK_SIZE) chs))"
proof -
  have "take (min (i * CHUNK_SIZE + CHUNK_SIZE) (length chs) - i * CHUNK_SIZE) (drop (i * CHUNK_SIZE) chs)
        = take CHUNK_SIZE (drop (i * CHUNK_SIZE) chs)"
    by (cases "i * CHUNK_SIZE + CHUNK_SIZE \<le> length chs") (simp_all add: min_def)
  then show ?thesis by (simp add: chunk_of_def slice_def Let_def)
qed

lemma concat_chunks_prefix:
  "concat (map (\<lambda>i. take c (drop (i * c) xs)) [0 ..< n]) = take (n * c) xs"
proof (induction n)
  case 0
  then show ?case by simp
next
  case (Suc n)
  have "take (n * c) xs @ take c (drop (n * c) xs) = take (n * c + c) xs"
    by (simp add: take_add)
  with Suc show ?case by (simp add: add.commute)
qed

lemma chunk_count_covers: "length xs \<le> chunk_count (length xs) * CHUNK_SIZE"
proof -
  let ?m = "length xs + 299"
  have "?m div 300 * 300 + ?m mod 300 = ?m" by (rule div_mult_mod_eq)
  moreover have "?m mod 300 < 300" by simp
  ultimately have "length xs \<le> ?m div 300 * 300" by linarith
  then show ?thesis by (simp add: chunk_count_def CHUNK_SIZE_def)
qed

lemma concat_chunk_of:
  "concat (map (chunk_of chs) [0 ..< n]) = map minimizeChannel (take (n * CHUNK_SIZE) chs)"
proof -
  have f: "chunk_of chs = (\<lambda>i. map minimizeChannel (take CHUNK_SIZE (drop (i * CHUNK_SIZE) chs)))"
    by (rule ext) (rule chunk_of_eq)
  have "concat (map (chunk_of chs) [0 ..< n])
        = map minimizeChannel (concat (map (\<lambda>i. take CHUNK_SIZE (drop (i * CHUNK_SIZE) chs)) [0 ..< n]))"
    unfolding f by (simp add: map_concat comp_def)
  then show ?thesis by (simp add: concat_chunks_prefix)
qed

lemma concat_chunk_of_all:
  "concat (map (chunk_of chs) [0 ..< chunk_count (length chs)]) = map minimizeChannel chs"
  using chunk_count_covers [of chs] by (simp add: concat_chunk_of)

lemma chunk_below_full:
  assumes "Suc i < chunk_count (length chs)"
  shows "i * CHUNK_SIZE + CHUNK_SIZE \<le> length chs"
proof -
  let ?m = "length chs + 299"
  from assms have "Suc (Suc i) \<le> ?m div 300"
    by (simp add: chunk_count_def CHUNK_SIZE_def)
  then have "Suc (Suc i) * 300 \<le> ?m div 300 * 300" by (rule mult_le_mono1)
  also have "\<dots> \<le> ?m" by (rule div_times_less_eq_dividend)
  finally show ?thesis by (simp add: CHUNK_SIZE_def)
qed

lemma length_chunk_of_full:
  "Suc i < chunk_count (length chs) \<Longrightarrow> length (chunk_of chs i) = CHUNK_SIZE"
  using chunk_below_full [of i chs] by (simp add: chunk_of_eq)

lemma items_getPlaylistList [simp]: "items (snd (getPlaylistList s)) = items s"
  by (cases "faults s"; cases "hd (faults s)")
     (auto simp: getPlaylistList_def getItem_def next_fault_def split: option.splits stored.splits)

lemma faults_getPlaylistList [simp]: "faults (snd (getPlaylistList s)) = tl (faults s)"
  by (cases "faults s"; cases "hd (faults s)")
     (auto simp: getPlaylistList_def getItem_def next_fault_def split: option.splits stored.splits)

lemma getPlaylistList_ok:
  "faults s = [] \<Longrightarrow>
   getPlaylistList s = ((case items s KEY_PLAYLISTS of Some (SInfos l) \<Rightarrow> l | _ \<Rightarrow> []), s)"
  by (simp add: getPlaylistList_def getItem_ok split: option.splits stored.splits)

lemma items_getActivePlaylistId [simp]: "items (snd (getActivePlaylistId s)) = items s"
  by (cases "faults s"; cases "hd (faults s)")
     (auto simp: getActivePlaylistId_def getItem_def next_fault_def split: option.splits stored.splits)

lemma getActivePlaylistId_ok:
  "faults s = [] \<Longrightarrow>
   getActivePlaylistId s =
     ((case items s KEY_ACTIVE_PLAYLIST_ID of Some (SText v) \<Rightarrow> Some v | _ \<Rightarrow> None), s)"
  by (simp add: getActivePlaylistId_def getItem_ok split: option.splits stored.splits)

lemma items_savePlaylistList:
  "k \<noteq> KEY_PLAYLISTS \<Longrightarrow> items (savePlaylistList l s) k = items s k"
  by (cases "faults s"; cases "hd (faults s)")
     (auto simp: savePlaylistList_def setItem_def next_fault_def)

lemma savePlaylistList_ok:
  "faults s = [] \<Longrightarrow> savePlaylistList l s = s\<lparr>items := (items s)(KEY_PLAYLISTS \<mapsto> SInfos l)\<rparr>"
  by (simp add: savePlaylistList_def setItem_def next_fault_def)

lemma items_setActivePlaylistId:
  "k \<noteq> KEY_ACTIVE_PLAYLIST_ID \<Longrightarrow> items (setActivePlaylistId pid s) k = items s k"
  by (cases "faults s"; cases "hd (faults s)")
     (auto simp: setActivePlaylistId_def setItem_def next_fault_def)

lemma setActivePlaylistId_ok:
  "faults s = [] \<Longrightarrow>
   setActivePlaylistId pid s = s\<lparr>items := (items s)(KEY_ACTIVE_PLAYLIST_ID \<mapsto> SText pid)\<rparr>"
  by (simp add: setActivePlaylistId_def setItem_def next_fault_def)

lemma items_finish_save:
  "k \<noteq> KEY_PLAYLISTS \<Longrightarrow> k \<noteq> KEY_ACTIVE_PLAYLIST_ID \<Longrightarrow>
   items (finish_save P t c m s) k = items s k"
proof -
  assume a: "k \<noteq> KEY_PLAYLISTS" "k \<noteq> KEY_ACTIVE_PLAYLIST_ID"
  obtain l s3 where g: "getPlaylistList s = (l, s3)" by (cases "getPlaylistList s")
  then have "items s3 = items s"
    using items_getPlaylistList [of s] by simp
  with a g show ?thesis
    by (simp add: finish_save_def items_setActivePlaylistId items_savePlaylistList)
qed

lemma finish_save_ok:
  "faults s = [] \<Longrightarrow>
   finish_save P t c m s =
     s\<lparr>items := (items s)
          (KEY_PLAYLISTS \<mapsto> SInfos (upsert (summary_of P t c m)
                                       (case items s KEY_PLAYLISTS of Some (SInfos l) \<Rightarrow> l | _ \<Rightarrow> [])),
           KEY_ACTIVE_PLAYLIST_ID \<mapsto> SText (p_id P))\<rparr>"
  by (simp add: finish_save_def getPlaylistList_ok savePlaylistList_ok setActivePlaylistId_ok)

lemma savePlaylist_unfold:
  "savePlaylist P t c s =
     (case setItem (meta_key (p_id P)) (SMeta (initial_meta P t c)) s of
        (Inl e, s1) \<Rightarrow> (Inl (rethrow e), s1)
      | (Inr _, s1) \<Rightarrow>
          (case save_chunks (p_id P) (p_channels P) (chunk_count (length (p_channels P)))
                  (initial_meta P t c) 0 s1 of
             (Inl e, s2) \<Rightarrow> (Inl (rethrow e), s2)
           | (Inr meta', s2) \<Rightarrow> (Inr (), finish_save P t c meta' s2)))"
  by (simp add: savePlaylist_def initial_meta_def finish_save_def summary_of_def upsert_def Let_def
           split: prod.splits sum.splits)

section \<open>A save without storage failure, and a load\<close>

lemma savePlaylist_ok:
  assumes "faults s = []"
  shows "savePlaylist P t c s =
           (Inr (), finish_save P t c (initial_meta P t c)
                      (chunks_written (p_id P) (p_channels P) 0 (chunk_count (length (p_channels P)))
                         (s\<lparr>items := (items s)(meta_key (p_id P) \<mapsto> SMeta (initial_meta P t c))\<rparr>)))"
proof -
  let ?s1 = "s\<lparr>items := (items s)(meta_key (p_id P) \<mapsto> SMeta (initial_meta P t c))\<rparr>"
  have m: "setItem (meta_key (p_id P)) (SMeta (initial_meta P t c)) s = (Inr (), ?s1)"
    using assms by (simp add: setItem_ok)
  have "\<forall>f \<in> set (take (chunk_count (length (p_channels P))) (faults ?s1)). f = None"
    using assms by simp
  then have "save_chunks (p_id P) (p_channels P) (chunk_count (length (p_channels P)))
               (initial_meta P t c) 0 ?s1
             = (Inr (initial_meta P t c),
                chunks_written (p_id P) (p_channels P) 0 (chunk_count (length (p_channels P))) ?s1)"
    by (rule save_chunks_ok)
  with m show ?thesis by (simp add: savePlaylist_unfold)
qed

lemma saved_state:
  assumes "faults s = []" and "savePlaylist P t c s = (r, s')"
  shows saved_result: "r = Inr ()"
    and saved_faults: "faults s' = []"
    and saved_meta: "items s' (meta_key (p_id P)) = Some (SMeta (initial_meta P t c))"
    and saved_chunk: "\<And>j. j < chunk_count (length (p_channels P)) \<Longrightarrow>
           items s' (chunk_key (p_id P) j) = Some (SChunk (chunk_of (p_channels P) j))"
    and saved_beyond: "\<And>j. chunk_count (length (p_channels P)) \<le> j \<Longrightarrow>
           items s' (chunk_key (p_id P) j) = items s (chunk_key (p_id P) j)"
    and saved_summary: "items s' KEY_PLAYLISTS =
           Some (SInfos (upsert (summary_of P t c (initial_meta P t c))
                           (case items s KEY_PLAYLISTS of Some (SInfos l) \<Rightarrow> l | _ \<Rightarrow> [])))"
    and saved_active: "items s' KEY_ACTIVE_PLAYLIST_ID = Some (SText (p_id P))"
proof -
  let ?n = "chunk_count (length (p_channels P))"
  let ?s1 = "s\<lparr>items := (items s)(meta_key (p_id P) \<mapsto> SMeta (initial_meta P t c))\<rparr>"
  let ?s2 = "chunks_written (p_id P) (p_channels P) 0 ?n ?s1"
  have eq: "r = Inr ()" "s' = finish_save P t c (initial_meta P t c) ?s2"
    using assms savePlaylist_ok [OF assms(1), of P t c] by simp_all
  have f2: "faults ?s2 = []" using assms(1) by simp
  show "r = Inr ()" by (rule eq)
  show "faults s' = []"
    unfolding eq using assms(1) by (simp add: finish_save_ok)
  have "items s' (meta_key (p_id P)) = items ?s2 (meta_key (p_id P))"
    unfolding eq by (intro items_finish_save) (simp_all add: keys_distinct [symmetric])
  also have "\<dots> = items ?s1 (meta_key (p_id P))"
    by (intro items_chunks_written_out) (simp add: meta_chunk_key)
  finally show "items s' (meta_key (p_id P)) = Some (SMeta (initial_meta P t c))" by simp
  show "items s' (chunk_key (p_id P) j) = Some (SChunk (chunk_of (p_channels P) j))"
    if "j < ?n" for j
  proof -
    have "items s' (chunk_key (p_id P) j) = items ?s2 (chunk_key (p_id P) j)"
      unfolding eq by (intro items_finish_save) (simp_all add: keys_distinct [symmetric])
    then show ?thesis using that by (simp add: items_chunks_written_in)
  qed
  show "items s' (chunk_key (p_id P) j) = items s (chunk_key (p_id P) j)"
    if "?n \<le> j" for j
  proof -
    have "items s' (chunk_key (p_id P) j) = items ?s2 (chunk_key (p_id P) j)"
      unfolding eq by (intro items_finish_save) (simp_all add: keys_distinct [symmetric])
    also have "\<dots> = items ?s1 (chunk_key (p_id P) j)"
      using that by (intro items_chunks_written_out) (auto simp: chunk_key_inj)
    finally show ?thesis using meta_chunk_key [of "p_id P" "p_id P" j] by simp
  qed
  have pl: "items ?s2 KEY_PLAYLISTS = items s KEY_PLAYLISTS"
  proof -
    have "items ?s2 KEY_PLAYLISTS = items ?s1 KEY_PLAYLISTS"
      by (intro items_chunks_written_out) (simp add: keys_distinct)
    then show ?thesis by (simp add: keys_distinct)
  qed
  show "items s' KEY_PLAYLISTS =
           Some (SInfos (upsert (summary_of P t c (initial_meta P t c))
                           (case items s KEY_PLAYLISTS of Some (SInfos l) \<Rightarrow> l | _ \<Rightarrow> [])))"
    unfolding eq using keys_distinct(5) by (simp add: finish_save_ok [OF f2] pl)
  show "items s' KEY_ACTIVE_PLAYLIST_ID = Some (SText (p_id P))"
    unfolding eq by (simp add: finish_save_ok [OF f2])
qed

lemma getPlaylist_ok:
  assumes "faults s = []" and "pid \<noteq> []" and "items s (meta_key pid) = Some (SMeta m)"
  shows "getPlaylist (Some pid) s =
           (Some \<lparr> p_id = m_id m, p_name = m_name m, p_url = m_url m,
                   p_channels = concat (map (chunk_channels s pid) [0 ..< m_chunkCount m]),
                   p_categories = m_categories m, p_lastUpdated = m_lastUpdated m \<rparr>, s)"
  using assms by (simp add: getPlaylist_def getItem_ok load_chunks_ok)

section \<open>Round trip of the channel list\<close>

lemma expand_minimize:
  "expandChannel (minimizeChannel ch) =
     \<lparr> c_id = c_id ch, c_name = c_name ch, c_url = c_url ch,
       c_logo = (if c_logo ch = Some [] then None else c_logo ch),
       c_group = c_group ch, c_tvgId = None, c_tvgName = None, c_drm = None,
       c_headers = None, c_isLive = None, c_quality = None \<rparr>"
  by (simp add: expandChannel_def minimizeChannel_def split: option.splits)

lemma chunk_channels_concat:
  assumes "\<And>j. j < n \<Longrightarrow> items s (chunk_key pid j) = Some (SChunk (chunk_of chs j))"
  shows "concat (map (chunk_channels s pid) [0 ..< n])
         = map (expandChannel \<circ> minimizeChannel) (take (n * CHUNK_SIZE) chs)"
proof -
  have "map (chunk_channels s pid) [0 ..< n] = map (\<lambda>j. map expandChannel (chunk_of chs j)) [0 ..< n]"
    using assms by (simp add: chunk_channels_def)
  then have "concat (map (chunk_channels s pid) [0 ..< n])
             = concat (map (\<lambda>j. map expandChannel (chunk_of chs j)) [0 ..< n])"
    by (rule arg_cong)
  also have "\<dots> = map expandChannel (concat (map (chunk_of chs) [0 ..< n]))"
    by (simp add: map_concat comp_def)
  finally show ?thesis by (simp add: concat_chunk_of)
qed

lemma getPlaylist_empty_id:
  assumes "faults s = []" and "items s KEY_ACTIVE_PLAYLIST_ID = Some (SText [])"
  shows "getPlaylist (Some []) s = (None, s)"
  using assms by (simp add: getPlaylist_def getActivePlaylistId_ok)

lemma save_then_load:
  assumes "faults s = []" and "p_id P \<noteq> []" and "savePlaylist P t c s = (r, s')"
  shows "getPlaylist (Some (p_id P)) s' =
           (Some \<lparr> p_id = p_id P, p_name = p_name P, p_url = p_url P,
                   p_channels = map (expandChannel \<circ> minimizeChannel) (p_channels P),
                   p_categories = take 50 (p_categories P),
                   p_lastUpdated = p_lastUpdated P \<rparr>, s')"
proof -
  let ?n = "chunk_count (length (p_channels P))"
  note st = saved_state [OF assms(1) assms(3)]
  have "concat (map (chunk_channels s' (p_id P)) [0 ..< ?n])
        = map (expandChannel \<circ> minimizeChannel) (take (?n * CHUNK_SIZE) (p_channels P))"
    using st(4) by (rule chunk_channels_concat)
  then have "concat (map (chunk_channels s' (p_id P)) [0 ..< ?n])
        = map (expandChannel \<circ> minimizeChannel) (p_channels P)"
    using chunk_count_covers [of "p_channels P"] by simp
  then show ?thesis
    using getPlaylist_ok [OF st(2) assms(2) st(3)] by (simp add: initial_meta_def)
qed

text \<open>
  C1 (amended). When no storage call fails and the playlist id is not the empty string,
  \<open>savePlaylist P\<close> succeeds and \<open>getPlaylist(P.id)\<close> then returns a playlist with as
  many channels as \<open>P\<close>, in the same order, the i-th agreeing with the i-th of \<open>P\<close> on
  id, name, url and group, and on logo unless that logo is the empty string, which is
  read back as absent.
\<close>

theorem save_load_roundtrip:
  assumes "faults s = []" and "p_id P \<noteq> []" and "savePlaylist P t c s = (r, s')"
  shows "r = Inr () \<and>
         (\<exists>P'. getPlaylist (Some (p_id P)) s' = (Some P', s')
            \<and> length (p_channels P') = length (p_channels P)
            \<and> (\<forall>i < length (p_channels P).
                  c_id (p_channels P' ! i) = c_id (p_channels P ! i)
                  \<and> c_name (p_channels P' ! i) = c_name (p_channels P ! i)
                  \<and> c_url (p_channels P' ! i) = c_url (p_channels P ! i)
                  \<and> c_group (p_channels P' ! i) = c_group (p_channels P ! i)
                  \<and> c_logo (p_channels P' ! i) =
                      (if c_logo (p_channels P ! i) = Some [] then None
                       else c_logo (p_channels P ! i))))"
proof -
  have "r = Inr ()" using assms(1) assms(3) by (rule saved_result)
  then show ?thesis
    using save_then_load [OF assms] by (simp add: expand_minimize)
qed

theorem save_load_roundtrip_witness:
  "faults empty_store = [] \<and> p_id (playlist_of ''p1'' [channel_cnn, channel_bbc]) \<noteq> []
   \<and> fst (savePlaylist (playlist_of ''p1'' [channel_cnn, channel_bbc]) M3u None empty_store) = Inr ()
   \<and> length (p_channels (the (fst (getPlaylist (Some ''p1'')
        (snd (savePlaylist (playlist_of ''p1'' [channel_cnn, channel_bbc]) M3u None empty_store)))))) = 2"
proof -
  let ?P = "playlist_of ''p1'' [channel_cnn, channel_bbc]"
  obtain r s' where sv: "savePlaylist ?P M3u None empty_store = (r, s')"
    by (cases "savePlaylist ?P M3u None empty_store")
  have h1: "faults empty_store = []" by (simp add: empty_store_def)
  have h2: "p_id ?P \<noteq> []" by (simp add: playlist_of_def)
  from save_load_roundtrip [OF h1 h2 sv] obtain P' where
    "r = Inr ()" "getPlaylist (Some (p_id ?P)) s' = (Some P', s')"
    "length (p_channels P') = length (p_channels ?P)" by blast
  then show ?thesis using sv h1 h2 by (simp add: playlist_of_def)
qed

theorem save_load_roundtrip_counterexample:
  "fst (getPlaylist (Some ''p1'')
          (snd (savePlaylist (playlist_of ''p1'' [channel_bbc]) M3u None empty_store)))
     = Some (playlist_of ''p1'' [channel_bbc\<lparr>c_logo := None, c_isLive := None\<rparr>])
   \<and> c_logo channel_bbc = Some []
   \<and> fst (savePlaylist (playlist_of [] [channel_cnn]) M3u None empty_store) = Inr ()
   \<and> fst (getPlaylist (Some (p_id (playlist_of [] [channel_cnn])))
          (snd (savePlaylist (playlist_of [] [channel_cnn]) M3u None empty_store))) = None"
proof -
  have h1: "faults empty_store = []" by (simp add: empty_store_def)
  let ?P = "playlist_of ''p1'' [channel_bbc]"
  obtain r s' where sv: "savePlaylist ?P M3u None empty_store = (r, s')"
    by (cases "savePlaylist ?P M3u None empty_store")
  have "p_id ?P \<noteq> []" by (simp add: playlist_of_def)
  from save_then_load [OF h1 this sv]
  have a: "fst (getPlaylist (Some ''p1'') (snd (savePlaylist ?P M3u None empty_store)))
        = Some (playlist_of ''p1'' [channel_bbc\<lparr>c_logo := None, c_isLive := None\<rparr>])"
    using sv by (simp add: playlist_of_def expand_minimize channel_bbc_def)
  let ?Q = "playlist_of [] [channel_cnn]"
  obtain r2 s2 where sv2: "savePlaylist ?Q M3u None empty_store = (r2, s2)"
    by (cases "savePlaylist ?Q M3u None empty_store")
  note st = saved_state [OF h1 sv2]
  have "items s2 KEY_ACTIVE_PLAYLIST_ID = Some (SText [])"
    using st(7) by (simp add: playlist_of_def)
  with st(2) have "getPlaylist (Some []) s2 = (None, s2)" by (rule getPlaylist_empty_id)
  then have b: "fst (getPlaylist (Some (p_id ?Q)) (snd (savePlaylist ?Q M3u None empty_store))) = None"
    using sv2 by (simp add: playlist_of_def)
  have c: "fst (savePlaylist ?Q M3u None empty_store) = Inr ()"
    using st(1) sv2 by simp
  show ?thesis using a b c by (simp add: channel_bbc_def)
qed

section \<open>A chunk write that fails\<close>

lemma faults_savePlaylistList [simp]: "faults (savePlaylistList l s) = tl (faults s)"
  by (cases "faults s"; cases "hd (faults s)")
     (auto simp: savePlaylistList_def setItem_def next_fault_def)

lemma faults_setActivePlaylistId [simp]: "faults (setActivePlaylistId pid s) = tl (faults s)"
  by (cases "faults s"; cases "hd (faults s)")
     (auto simp: setActivePlaylistId_def setItem_def next_fault_def)

lemma faults_finish_save: "faults (finish_save P t c m s) = drop 3 (faults s)"
proof -
  obtain l s3 where g: "getPlaylistList s = (l, s3)" by (cases "getPlaylistList s")
  then have "faults s3 = tl (faults s)"
    using faults_getPlaylistList [of s] by simp
  with g show ?thesis
    by (simp add: finish_save_def drop_Suc numeral_3_eq_3 drop_tl tl_drop)
qed

text \<open>
  The store when the loop reaches chunk \<open>k\<close>, after the metadata and the chunks below
  \<open>k\<close> have been written without failure.
\<close>

lemma save_reaches_chunk:
  fixes P :: Playlist and t :: PlaylistType and c :: "XtreamCredentials option"
  assumes "k < chunk_count (length (p_channels P))"
    and "faults s = None # replicate k None @ Some e # fs"
  defines "s2 \<equiv> chunks_written (p_id P) (p_channels P) 0 k
                  (s\<lparr>items := (items s)(meta_key (p_id P) \<mapsto> SMeta (initial_meta P t c)),
                     faults := replicate k None @ Some e # fs\<rparr>)"
  shows "savePlaylist P t c s =
           (case save_chunks (p_id P) (p_channels P) (chunk_count (length (p_channels P)))
                   (initial_meta P t c) k s2 of
              (Inl e, s') \<Rightarrow> (Inl (rethrow e), s')
            | (Inr meta', s') \<Rightarrow> (Inr (), finish_save P t c meta' s'))"
    and "faults s2 = Some e # fs"
    and "items s2 (meta_key (p_id P)) = Some (SMeta (initial_meta P t c))"
    and "\<And>j. j < k \<Longrightarrow> items s2 (chunk_key (p_id P) j) = Some (SChunk (chunk_of (p_channels P) j))"
    and "\<And>key. key \<noteq> meta_key (p_id P) \<Longrightarrow> \<forall>j < k. key \<noteq> chunk_key (p_id P) j \<Longrightarrow>
            items s2 key = items s key"
proof -
  let ?s1 = "s\<lparr>items := (items s)(meta_key (p_id P) \<mapsto> SMeta (initial_meta P t c)),
               faults := replicate k None @ Some e # fs\<rparr>"
  have m: "setItem (meta_key (p_id P)) (SMeta (initial_meta P t c)) s = (Inr (), ?s1)"
    using assms(2) by (simp add: setItem_ok)
  have f1: "faults ?s1 = replicate k None @ Some e # fs" by simp
  note lp = save_chunks_fault [OF assms(1) f1]
  show "savePlaylist P t c s =
           (case save_chunks (p_id P) (p_channels P) (chunk_count (length (p_channels P)))
                   (initial_meta P t c) k s2 of
              (Inl e, s') \<Rightarrow> (Inl (rethrow e), s')
            | (Inr meta', s') \<Rightarrow> (Inr (), finish_save P t c meta' s'))"
    unfolding s2_def by (simp add: savePlaylist_unfold m lp(1))
  show "faults s2 = Some e # fs"
    unfolding s2_def by (rule lp(2))
  have "items s2 (meta_key (p_id P)) = items ?s1 (meta_key (p_id P))"
    unfolding s2_def by (intro items_chunks_written_out) (simp add: meta_chunk_key)
  then show "items s2 (meta_key (p_id P)) = Some (SMeta (initial_meta P t c))" by simp
  show "items s2 (chunk_key (p_id P) j) = Some (SChunk (chunk_of (p_channels P) j))" if "j < k" for j
    unfolding s2_def using that by (simp add: items_chunks_written_in)
  show "items s2 key = items s key"
    if "key \<noteq> meta_key (p_id P)" "\<forall>j < k. key \<noteq> chunk_key (p_id P) j" for key
  proof -
    have "items s2 key = items ?s1 key"
      unfolding s2_def using that(2) by (intro items_chunks_written_out) simp
    then show ?thesis using that(1) by simp
  qed
qed

text \<open>
  C10. If the store rejects the write of chunk \<open>k\<close> with an error that is not the
  out-of-space one, after the metadata and the chunks below \<open>k\<close> were written, then
  \<open>savePlaylist\<close> throws that same error, the summary list and the active playlist id
  are as they were, and so is every key but the metadata key and the keys of the chunks
  below \<open>k\<close>.
\<close>

theorem save_other_error_propagates:
  assumes "k < chunk_count (length (p_channels P))"
    and "faults s = None # replicate k None @ Some e # fs"
    and "\<not> isDiskFull e"
    and "savePlaylist P t c s = (r, s')"
  shows "r = Inl e
         \<and> items s' KEY_PLAYLISTS = items s KEY_PLAYLISTS
         \<and> items s' KEY_ACTIVE_PLAYLIST_ID = items s KEY_ACTIVE_PLAYLIST_ID
         \<and> (\<forall>key. key \<noteq> meta_key (p_id P) \<and> (\<forall>j < k. key \<noteq> chunk_key (p_id P) j)
               \<longrightarrow> items s' key = items s key)"
proof -
  let ?s2 = "chunks_written (p_id P) (p_channels P) 0 k
                  (s\<lparr>items := (items s)(meta_key (p_id P) \<mapsto> SMeta (initial_meta P t c)),
                     faults := replicate k None @ Some e # fs\<rparr>)"
  note rc = save_reaches_chunk [OF assms(1) assms(2), where t = t and c = c]
  have "save_chunks (p_id P) (p_channels P) (chunk_count (length (p_channels P)))
          (initial_meta P t c) k ?s2 = (Inl e, ?s2\<lparr>faults := fs\<rparr>)"
    using assms(3) by (simp add: save_chunks_at_fault [OF assms(1) rc(2)])
  with rc(1) assms(3) assms(4) have r: "r = Inl e" and s': "s' = ?s2\<lparr>faults := fs\<rparr>"
    by (simp_all add: rethrow_def)
  have other: "items s' key = items s key"
    if "key \<noteq> meta_key (p_id P)" "\<forall>j < k. key \<noteq> chunk_key (p_id P) j" for key
    using rc(5) [OF that] by (simp add: s')
  have "items s' KEY_PLAYLISTS = items s KEY_PLAYLISTS"
    by (rule other) (simp_all add: keys_distinct)
  moreover have "items s' KEY_ACTIVE_PLAYLIST_ID = items s KEY_ACTIVE_PLAYLIST_ID"
    by (rule other) (simp_all add: keys_distinct)
  ultimately show ?thesis using r other by blast
qed

theorem save_other_error_propagates_witness:
  "1 < chunk_count (length (p_channels (playlist_of ''p1'' (replicate 301 channel_cnn))))
   \<and> faults (store_failing [None, None, Some io_error]) = None # replicate 1 None @ Some io_error # []
   \<and> \<not> isDiskFull io_error
   \<and> fst (savePlaylist (playlist_of ''p1'' (replicate 301 channel_cnn)) M3u None
             (store_failing [None, None, Some io_error])) = Inl io_error
   \<and> items (snd (savePlaylist (playlist_of ''p1'' (replicate 301 channel_cnn)) M3u None
             (store_failing [None, None, Some io_error]))) KEY_PLAYLISTS = None
   \<and> items (snd (savePlaylist (playlist_of ''p1'' (replicate 301 channel_cnn)) M3u None
             (store_failing [None, None, Some io_error]))) KEY_ACTIVE_PLAYLIST_ID = None"
proof -
  let ?P = "playlist_of ''p1'' (replicate 301 channel_cnn)"
  let ?s = "store_failing [None, None, Some io_error]"
  obtain r s' where sv: "savePlaylist ?P M3u None ?s = (r, s')"
    by (cases "savePlaylist ?P M3u None ?s")
  have h1: "1 < chunk_count (length (p_channels ?P))"
    by (simp add: playlist_of_def chunk_count_def CHUNK_SIZE_def)
  have h2: "faults ?s = None # replicate 1 None @ Some io_error # []"
    by (simp add: store_failing_def)
  have h3: "\<not> isDiskFull io_error"
    by (simp add: isDiskFull_def io_error_def)
  from save_other_error_propagates [OF h1 h2 h3 sv]
  show ?thesis using sv h1 h2 h3 by (simp add: store_failing_def)
qed

section \<open>A chunk write that fails for lack of space\<close>

lemma below_chunk_count:
  assumes "k < chunk_count (length chs)"
  shows "k * CHUNK_SIZE \<le> length chs"
proof (cases k)
  case 0
  then show ?thesis by simp
next
  case (Suc i)
  with assms have "i * CHUNK_SIZE + CHUNK_SIZE \<le> length chs" by (intro chunk_below_full) simp
  with Suc show ?thesis by simp
qed

lemma save_disk_full_state:
  fixes P :: Playlist and t :: PlaylistType and c :: "XtreamCredentials option"
  assumes "k < chunk_count (length (p_channels P))"
    and "faults s = None # replicate k None @ Some e # None # fs"
    and "isDiskFull e"
    and "savePlaylist P t c s = (r, s')"
  defines "meta' \<equiv> (initial_meta P t c)\<lparr>m_chunkCount := k, m_totalChannels := k * CHUNK_SIZE\<rparr>"
  shows "r = Inr ()"
    and "faults s' = drop 3 fs"
    and "items s' (meta_key (p_id P)) = Some (SMeta meta')"
    and "\<And>j. j < k \<Longrightarrow> items s' (chunk_key (p_id P) j) = Some (SChunk (chunk_of (p_channels P) j))"
    and "\<And>j. k \<le> j \<Longrightarrow> items s' (chunk_key (p_id P) j) = items s (chunk_key (p_id P) j)"
    and "fs = [] \<Longrightarrow> items s' KEY_ACTIVE_PLAYLIST_ID = Some (SText (p_id P))"
proof -
  let ?s2 = "chunks_written (p_id P) (p_channels P) 0 k
                  (s\<lparr>items := (items s)(meta_key (p_id P) \<mapsto> SMeta (initial_meta P t c)),
                     faults := replicate k None @ Some e # None # fs\<rparr>)"
  let ?s3 = "?s2\<lparr>items := (items ?s2)(meta_key (p_id P) \<mapsto> SMeta meta'), faults := fs\<rparr>"
  note rc = save_reaches_chunk [OF assms(1) assms(2), where t = t and c = c]
  have "setItem (meta_key (p_id P)) (SMeta meta') (?s2\<lparr>faults := None # fs\<rparr>) = (Inr (), ?s3)"
    by (simp add: setItem_ok)
  then have "save_chunks (p_id P) (p_channels P) (chunk_count (length (p_channels P)))
          (initial_meta P t c) k ?s2 = (Inr meta', ?s3)"
    using assms(3) by (simp add: save_chunks_at_fault [OF assms(1) rc(2)] meta'_def)
  with rc(1) assms(4) have r: "r = Inr ()" and s': "s' = finish_save P t c meta' ?s3"
    by simp_all
  show "r = Inr ()" by (rule r)
  show "faults s' = drop 3 fs" by (simp add: s' faults_finish_save)
  show "items s' KEY_ACTIVE_PLAYLIST_ID = Some (SText (p_id P))" if "fs = []"
    unfolding s' using that by (subst finish_save_ok) simp_all
  have fin: "items s' key = items ?s3 key"
    if "key \<noteq> KEY_PLAYLISTS" "key \<noteq> KEY_ACTIVE_PLAYLIST_ID" for key
    unfolding s' using that by (rule items_finish_save)
  have "items s' (meta_key (p_id P)) = items ?s3 (meta_key (p_id P))"
    by (rule fin) (simp_all add: keys_distinct [symmetric])
  then show "items s' (meta_key (p_id P)) = Some (SMeta meta')" by simp
  show "items s' (chunk_key (p_id P) j) = Some (SChunk (chunk_of (p_channels P) j))" if "j < k" for j
  proof -
    have "items s' (chunk_key (p_id P) j) = items ?s3 (chunk_key (p_id P) j)"
      by (rule fin) (simp_all add: keys_distinct [symmetric])
    also have "\<dots> = items ?s2 (chunk_key (p_id P) j)"
      using meta_chunk_key [of "p_id P" "p_id P" j] by simp
    finally show ?thesis using rc(4) [OF that] by simp
  qed
  show "items s' (chunk_key (p_id P) j) = items s (chunk_key (p_id P) j)" if "k \<le> j" for j
  proof -
    have "items s' (chunk_key (p_id P) j) = items ?s3 (chunk_key (p_id P) j)"
      by (rule fin) (simp_all add: keys_distinct [symmetric])
    also have "\<dots> = items ?s2 (chunk_key (p_id P) j)"
      using meta_chunk_key [of "p_id P" "p_id P" j] by simp
    also have "\<dots> = items s (chunk_key (p_id P) j)"
      using that meta_chunk_key [of "p_id P" "p_id P" j]
      by (intro rc(5)) (auto simp: chunk_key_inj)
    finally show ?thesis .
  qed
qed

lemma save_disk_full_meta_fails:
  fixes P :: Playlist and t :: PlaylistType and c :: "XtreamCredentials option"
  assumes "k < chunk_count (length (p_channels P))"
    and "faults s = None # replicate k None @ Some e # Some e2 # fs"
    and "isDiskFull e"
    and "savePlaylist P t c s = (r, s')"
  shows "r = Inl (rethrow e2)"
    and "items s' (meta_key (p_id P)) = Some (SMeta (initial_meta P t c))"
proof -
  let ?s2 = "chunks_written (p_id P) (p_channels P) 0 k
                  (s\<lparr>items := (items s)(meta_key (p_id P) \<mapsto> SMeta (initial_meta P t c)),
                     faults := replicate k None @ Some e # Some e2 # fs\<rparr>)"
  note rc = save_reaches_chunk [OF assms(1) assms(2), where t = t and c = c]
  have "save_chunks (p_id P) (p_channels P) (chunk_count (length (p_channels P)))
          (initial_meta P t c) k ?s2 = (Inl e2, ?s2\<lparr>faults := fs\<rparr>)"
    using assms(3) by (simp add: save_chunks_at_fault [OF assms(1) rc(2)] setItem_fail)
  with rc(1) assms(4) have r: "r = Inl (rethrow e2)" and s': "s' = ?s2\<lparr>faults := fs\<rparr>"
    by simp_all
  show "r = Inl (rethrow e2)" by (rule r)
  show "items s' (meta_key (p_id P)) = Some (SMeta (initial_meta P t c))"
    using rc(3) by (simp add: s')
qed

text \<open>
  C2 (amended). If the metadata and the chunks below \<open>k\<close> are written without failure,
  the write of chunk \<open>k\<close> fails with the out-of-space error and the write of the
  metadata that follows it succeeds, then \<open>savePlaylist\<close> returns successfully after
  three more store calls, none of them on a chunk (the chunk records from \<open>k\<close> on are as
  before the save), the persisted metadata has \<open>chunkCount = k\<close> and
  \<open>totalChannels = k * 300\<close>, and, when the playlist id is not the empty string, a
  later \<open>getPlaylist(P.id)\<close> during which no store call fails returns the first
  \<open>k * 300\<close> channels.
\<close>

theorem save_disk_full_truncates:
  assumes "k < chunk_count (length (p_channels P))"
    and "faults s = None # replicate k None @ Some e # None # fs"
    and "isDiskFull e"
    and "p_id P \<noteq> []"
    and "savePlaylist P t c s = (r, s')"
  shows "r = Inr ()
         \<and> faults s' = drop 3 fs
         \<and> (\<forall>j \<ge> k. items s' (chunk_key (p_id P) j) = items s (chunk_key (p_id P) j))
         \<and> (\<exists>m. items s' (meta_key (p_id P)) = Some (SMeta m)
                \<and> m_chunkCount m = k \<and> m_totalChannels m = k * 300)
         \<and> (\<exists>P'. fst (getPlaylist (Some (p_id P)) (s'\<lparr>faults := []\<rparr>)) = Some P'
                \<and> p_channels P' = map (expandChannel \<circ> minimizeChannel) (take (k * 300) (p_channels P))
                \<and> length (p_channels P') = k * 300)"
proof -
  let ?m = "(initial_meta P t c)\<lparr>m_chunkCount := k, m_totalChannels := k * CHUNK_SIZE\<rparr>"
  note st = save_disk_full_state [OF assms(1) assms(2) assms(3) assms(5)]
  let ?t = "s'\<lparr>faults := []\<rparr>"
  have ch: "concat (map (chunk_channels ?t (p_id P)) [0 ..< k])
        = map (expandChannel \<circ> minimizeChannel) (take (k * CHUNK_SIZE) (p_channels P))"
    by (rule chunk_channels_concat) (simp add: st(4))
  have "getPlaylist (Some (p_id P)) ?t =
          (Some \<lparr> p_id = m_id ?m, p_name = m_name ?m, p_url = m_url ?m,
                  p_channels = concat (map (chunk_channels ?t (p_id P)) [0 ..< m_chunkCount ?m]),
                  p_categories = m_categories ?m, p_lastUpdated = m_lastUpdated ?m \<rparr>, ?t)"
    by (rule getPlaylist_ok) (simp_all add: assms(4) st(3))
  then have ld: "\<exists>P'. fst (getPlaylist (Some (p_id P)) ?t) = Some P'
      \<and> p_channels P' = map (expandChannel \<circ> minimizeChannel) (take (k * 300) (p_channels P))
      \<and> length (p_channels P') = k * 300"
    using ch below_chunk_count [OF assms(1)] by (simp add: CHUNK_SIZE_def)
  have "\<exists>m. items s' (meta_key (p_id P)) = Some (SMeta m)
          \<and> m_chunkCount m = k \<and> m_totalChannels m = k * 300"
    using st(3) by (simp add: CHUNK_SIZE_def)
  with st(1) st(2) st(5) ld show ?thesis by blast
qed

theorem save_disk_full_truncates_witness:
  "1 < chunk_count (length (p_channels (playlist_of ''p1'' (replicate 301 channel_cnn))))
   \<and> faults (store_failing [None, None, Some disk_full_error, None])
       = None # replicate 1 None @ Some disk_full_error # None # []
   \<and> isDiskFull disk_full_error
   \<and> p_id (playlist_of ''p1'' (replicate 301 channel_cnn)) \<noteq> []
   \<and> fst (savePlaylist (playlist_of ''p1'' (replicate 301 channel_cnn)) M3u None
             (store_failing [None, None, Some disk_full_error, None])) = Inr ()
   \<and> length (p_channels (the (fst (getPlaylist (Some ''p1'')
        ((snd (savePlaylist (playlist_of ''p1'' (replicate 301 channel_cnn)) M3u None
             (store_failing [None, None, Some disk_full_error, None])))\<lparr>faults := []\<rparr>))))) = 300"
proof -
  let ?P = "playlist_of ''p1'' (replicate 301 channel_cnn)"
  let ?s = "store_failing [None, None, Some disk_full_error, None]"
  obtain r s' where sv: "savePlaylist ?P M3u None ?s = (r, s')"
    by (cases "savePlaylist ?P M3u None ?s")
  have h1: "1 < chunk_count (length (p_channels ?P))"
    by (simp add: playlist_of_def chunk_count_def CHUNK_SIZE_def)
  have h2: "faults ?s = None # replicate 1 None @ Some disk_full_error # None # []"
    by (simp add: store_failing_def)
  have h3: "isDiskFull disk_full_error"
    by (simp add: isDiskFull_def disk_full_error_def)
  have h4: "p_id ?P \<noteq> []" by (simp add: playlist_of_def)
  from save_disk_full_truncates [OF h1 h2 h3 h4 sv] obtain P' where
    "r = Inr ()" "fst (getPlaylist (Some (p_id ?P)) (s'\<lparr>faults := []\<rparr>)) = Some P'"
    "length (p_channels P') = 1 * 300" by blast
  then show ?thesis using sv h1 h2 h3 h4 by (simp add: playlist_of_def)
qed

theorem save_disk_full_truncates_counterexample:
  "1 < chunk_count (length (p_channels (playlist_of ''p1'' (replicate 301 channel_cnn))))
   \<and> isDiskFull disk_full_error
   \<and> fst (savePlaylist (playlist_of ''p1'' (replicate 301 channel_cnn)) M3u None
             (store_failing [None, None, Some disk_full_error, Some disk_full_error]))
       = Inl storage_full_error
   \<and> items (snd (savePlaylist (playlist_of ''p1'' (replicate 301 channel_cnn)) M3u None
             (store_failing [None, None, Some disk_full_error, Some disk_full_error])))
         (meta_key ''p1'')
       = Some (SMeta (initial_meta (playlist_of ''p1'' (replicate 301 channel_cnn)) M3u None))
   \<and> m_chunkCount (initial_meta (playlist_of ''p1'' (replicate 301 channel_cnn)) M3u None) = 2
   \<and> m_totalChannels (initial_meta (playlist_of ''p1'' (replicate 301 channel_cnn)) M3u None) = 301
   \<and> fst (savePlaylist (playlist_of [] (replicate 301 channel_cnn)) M3u None
             (store_failing [None, None, Some disk_full_error, None])) = Inr ()
   \<and> fst (getPlaylist (Some (p_id (playlist_of [] (replicate 301 channel_cnn))))
        ((snd (savePlaylist (playlist_of [] (replicate 301 channel_cnn)) M3u None
             (store_failing [None, None, Some disk_full_error, None])))\<lparr>faults := []\<rparr>)) = None"
proof -
  let ?P = "playlist_of ''p1'' (replicate 301 channel_cnn)"
  let ?s = "store_failing [None, None, Some disk_full_error, Some disk_full_error]"
  have h1: "1 < chunk_count (length (p_channels ?P))"
    by (simp add: playlist_of_def chunk_count_def CHUNK_SIZE_def)
  have h2: "faults ?s = None # replicate 1 None @ Some disk_full_error # [Some disk_full_error]"
    by (simp add: store_failing_def)
  have h3: "isDiskFull disk_full_error"
    by (simp add: isDiskFull_def disk_full_error_def)
  obtain r s' where sv: "savePlaylist ?P M3u None ?s = (r, s')"
    by (cases "savePlaylist ?P M3u None ?s")
  note mf = save_disk_full_meta_fails [OF h1 h2 h3 sv]
  have pid: "p_id ?P = ''p1''" by (simp add: playlist_of_def)
  have a: "fst (savePlaylist ?P M3u None ?s) = Inl storage_full_error"
    using mf(1) h3 by (simp add: sv rethrow_def)
  have b: "items (snd (savePlaylist ?P M3u None ?s)) (meta_key ''p1'')
             = Some (SMeta (initial_meta ?P M3u None))"
    using mf(2) by (simp add: sv pid)
  have c: "m_chunkCount (initial_meta ?P M3u None) = 2"
          "m_totalChannels (initial_meta ?P M3u None) = 301"
    by (simp_all add: initial_meta_def playlist_of_def chunk_count_def CHUNK_SIZE_def)
  let ?Q = "playlist_of [] (replicate 301 channel_cnn)"
  let ?u = "store_failing [None, None, Some disk_full_error, None]"
  obtain r2 s2 where sv2: "savePlaylist ?Q M3u None ?u = (r2, s2)"
    by (cases "savePlaylist ?Q M3u None ?u")
  have g1: "1 < chunk_count (length (p_channels ?Q))"
    by (simp add: playlist_of_def chunk_count_def CHUNK_SIZE_def)
  have g2: "faults ?u = None # replicate 1 None @ Some disk_full_error # None # []"
    by (simp add: store_failing_def)
  note st = save_disk_full_state [OF g1 g2 h3 sv2]
  have pid2: "p_id ?Q = []" by (simp add: playlist_of_def)
  have act: "items s2 KEY_ACTIVE_PLAYLIST_ID = Some (SText [])"
    using st(6) by (simp add: pid2)
  have "getPlaylist (Some []) (s2\<lparr>faults := []\<rparr>) = (None, s2\<lparr>faults := []\<rparr>)"
    by (rule getPlaylist_empty_id) (simp_all add: act)
  then have d: "fst (getPlaylist (Some (p_id ?Q)) ((snd (savePlaylist ?Q M3u None ?u))\<lparr>faults := []\<rparr>)) = None"
    by (simp add: sv2 pid2)
  have e: "fst (savePlaylist ?Q M3u None ?u) = Inr ()"
    using st(1) by (simp add: sv2)
  show ?thesis using h1 h3 a b c d e by simp
qed

section \<open>Saving twice under one id\<close>

lemma findIndex_None: "findIndex P xs = None \<longleftrightarrow> (\<forall>x \<in> set xs. \<not> P x)"
  by (induction xs) auto

lemma findIndex_Some: "findIndex P xs = Some i \<Longrightarrow> i < length xs \<and> P (xs ! i)"
  by (induction xs arbitrary: i) (auto split: if_splits)

lemma filter_update_same:
  "i < length xs \<Longrightarrow> P (xs ! i) \<Longrightarrow> P y \<Longrightarrow>
   length (filter P (xs[i := y])) = length (filter P xs)"
proof (induction xs arbitrary: i)
  case Nil
  then show ?case by simp
next
  case (Cons x xs)
  then show ?case by (cases i) auto
qed

lemma count_upsert:
  assumes "i_id info = pid"
  shows "length (filter (\<lambda>p. i_id p = pid) (upsert info l))
         = max 1 (length (filter (\<lambda>p. i_id p = pid) l))"
proof (cases "findIndex (\<lambda>p. i_id p = i_id info) l")
  case None
  then have "\<forall>x \<in> set l. i_id x \<noteq> pid"
    using assms by (simp add: findIndex_None)
  then have "filter (\<lambda>p. i_id p = pid) l = []" by (simp add: filter_empty_conv)
  with None assms show ?thesis by (simp add: upsert_def)
next
  case (Some i)
  then have i: "i < length l" "i_id (l ! i) = pid"
    using findIndex_Some [OF Some] assms by simp_all
  then have "length (filter (\<lambda>p. i_id p = pid) (l[i := info])) = length (filter (\<lambda>p. i_id p = pid) l)"
    using assms by (intro filter_update_same) simp_all
  moreover have "l ! i \<in> set (filter (\<lambda>p. i_id p = pid) l)"
    using i by simp
  then have "1 \<le> length (filter (\<lambda>p. i_id p = pid) l)"
    using length_pos_if_in_set [of "l ! i" "filter (\<lambda>p. i_id p = pid) l"] by linarith
  then have "max 1 (length (filter (\<lambda>p. i_id p = pid) l)) = length (filter (\<lambda>p. i_id p = pid) l)"
    by (rule max_absorb2)
  ultimately show ?thesis using Some by (simp add: upsert_def del: One_nat_def)
qed

lemma saved_summary_entries:
  assumes "faults s = []" and "savePlaylist P t c s = (r, s')"
  shows "summary_entries (p_id P) s' = max 1 (summary_entries (p_id P) s)"
proof -
  have "summary_list s' = upsert (summary_of P t c (initial_meta P t c)) (summary_list s)"
    using saved_summary [OF assms] by (simp add: summary_list_def)
  then show ?thesis
    by (simp add: summary_entries_def count_upsert summary_of_def)
qed

text \<open>
  C3 (amended). From a store whose summary list has at most one entry for the id, two
  saves under that id during which no store call fails leave exactly one summary entry
  for it and, at every index below the chunk count of the second save, the chunk record
  of the second save. The chunk records the first save wrote at that chunk count and
  above are still there, and no other chunk key of the id has changed.
\<close>

theorem save_twice_summary_and_chunks:
  assumes "faults s = []"
    and "summary_entries (p_id P1) s \<le> 1"
    and "p_id P2 = p_id P1"
    and "savePlaylist P1 t1 c1 s = (r1, s1)"
    and "savePlaylist P2 t2 c2 s1 = (r2, s2)"
  shows "r1 = Inr () \<and> r2 = Inr ()
         \<and> summary_entries (p_id P1) s2 = 1
         \<and> (\<forall>j < chunk_count (length (p_channels P2)).
               items s2 (chunk_key (p_id P1) j) = Some (SChunk (chunk_of (p_channels P2) j)))
         \<and> (\<forall>j. chunk_count (length (p_channels P2)) \<le> j \<and> j < chunk_count (length (p_channels P1))
               \<longrightarrow> items s2 (chunk_key (p_id P1) j) = Some (SChunk (chunk_of (p_channels P1) j)))
         \<and> (\<forall>j. chunk_count (length (p_channels P2)) \<le> j \<and> chunk_count (length (p_channels P1)) \<le> j
               \<longrightarrow> items s2 (chunk_key (p_id P1) j) = items s (chunk_key (p_id P1) j))"
proof -
  note a = saved_state [OF assms(1) assms(4)]
  note b = saved_state [OF a(2) assms(5)]
  have "summary_entries (p_id P1) s1 = 1"
    using saved_summary_entries [OF assms(1) assms(4)] assms(2) by simp
  then have e: "summary_entries (p_id P1) s2 = 1"
    using saved_summary_entries [OF a(2) assms(5)] assms(3) by simp
  have c2: "\<forall>j < chunk_count (length (p_channels P2)).
               items s2 (chunk_key (p_id P1) j) = Some (SChunk (chunk_of (p_channels P2) j))"
    using b(4) assms(3) by simp
  have c1: "\<forall>j. chunk_count (length (p_channels P2)) \<le> j \<and> j < chunk_count (length (p_channels P1))
               \<longrightarrow> items s2 (chunk_key (p_id P1) j) = Some (SChunk (chunk_of (p_channels P1) j))"
    using b(5) a(4) assms(3) by simp
  have c0: "\<forall>j. chunk_count (length (p_channels P2)) \<le> j \<and> chunk_count (length (p_channels P1)) \<le> j
               \<longrightarrow> items s2 (chunk_key (p_id P1) j) = items s (chunk_key (p_id P1) j)"
    using b(5) a(5) assms(3) by simp
  from a(1) b(1) e c2 c1 c0 show ?thesis by blast
qed

lemma chunk_count_301: "chunk_count (length (replicate 301 x)) = 2"
  by (simp add: chunk_count_def CHUNK_SIZE_def)

lemma one_below_chunk_count_301: "1 < chunk_count (length (replicate 301 x))"
  by (simp add: chunk_count_def CHUNK_SIZE_def)

lemma chunk_count_1: "chunk_count (length [x]) = 1"
  by (simp add: chunk_count_def CHUNK_SIZE_def)

lemma chunk_of_301_1: "chunk_of (replicate 301 x) 1 = [minimizeChannel x]"
  by (simp add: chunk_of_def slice_def CHUNK_SIZE_def Let_def)

theorem save_twice_summary_and_chunks_witness:
  "faults empty_store = []
   \<and> summary_entries (p_id (playlist_of ''p1'' (replicate 301 channel_cnn))) empty_store \<le> 1
   \<and> p_id (playlist_of ''p1'' [channel_bbc]) = p_id (playlist_of ''p1'' (replicate 301 channel_cnn))
   \<and> fst (savePlaylist (playlist_of ''p1'' [channel_bbc]) M3u None
            (snd (savePlaylist (playlist_of ''p1'' (replicate 301 channel_cnn)) M3u None empty_store)))
       = Inr ()
   \<and> summary_entries ''p1''
        (snd (savePlaylist (playlist_of ''p1'' [channel_bbc]) M3u None
            (snd (savePlaylist (playlist_of ''p1'' (replicate 301 channel_cnn)) M3u None empty_store))))
       = 1"
proof -
  let ?P1 = "playlist_of ''p1'' (replicate 301 channel_cnn)"
  let ?P2 = "playlist_of ''p1'' [channel_bbc]"
  obtain r1 s1 where sv1: "savePlaylist ?P1 M3u None empty_store = (r1, s1)"
    by (cases "savePlaylist ?P1 M3u None empty_store")
  obtain r2 s2 where sv2: "savePlaylist ?P2 M3u None s1 = (r2, s2)"
    by (cases "savePlaylist ?P2 M3u None s1")
  have h1: "faults empty_store = []" by (simp add: empty_store_def)
  have h2: "summary_entries (p_id ?P1) empty_store \<le> 1"
    by (simp add: summary_entries_def summary_list_def empty_store_def)
  have h3: "p_id ?P2 = p_id ?P1" by (simp add: playlist_of_def)
  have pid: "p_id ?P1 = ''p1''" by (simp add: playlist_of_def)
  from save_twice_summary_and_chunks [OF h1 h2 h3 sv1 sv2]
  have "r2 = Inr ()" "summary_entries (p_id ?P1) s2 = 1" by blast+
  then show ?thesis using h1 h2 h3 by (simp add: sv1 sv2 pid)
qed

lemma two_saves_example:
  "fst (savePlaylist (playlist_of ''p1'' (replicate 301 channel_cnn)) M3u None empty_store) = Inr ()
   \<and> fst (savePlaylist (playlist_of ''p1'' [channel_bbc]) M3u None
            (snd (savePlaylist (playlist_of ''p1'' (replicate 301 channel_cnn)) M3u None empty_store)))
       = Inr ()
   \<and> chunk_count (length (p_channels (playlist_of ''p1'' [channel_bbc]))) = 1
   \<and> items (snd (savePlaylist (playlist_of ''p1'' [channel_bbc]) M3u None
            (snd (savePlaylist (playlist_of ''p1'' (replicate 301 channel_cnn)) M3u None empty_store))))
        (meta_key ''p1'') = Some (SMeta (initial_meta (playlist_of ''p1'' [channel_bbc]) M3u None))
   \<and> m_chunkCount (initial_meta (playlist_of ''p1'' [channel_bbc]) M3u None) = 1
   \<and> items (snd (savePlaylist (playlist_of ''p1'' [channel_bbc]) M3u None
            (snd (savePlaylist (playlist_of ''p1'' (replicate 301 channel_cnn)) M3u None empty_store))))
        (chunk_key ''p1'' 0) = Some (SChunk [minimizeChannel channel_bbc])
   \<and> items (snd (savePlaylist (playlist_of ''p1'' [channel_bbc]) M3u None
            (snd (savePlaylist (playlist_of ''p1'' (replicate 301 channel_cnn)) M3u None empty_store))))
        (chunk_key ''p1'' 1) = Some (SChunk [minimizeChannel channel_cnn])
   \<and> faults (snd (savePlaylist (playlist_of ''p1'' [channel_bbc]) M3u None
            (snd (savePlaylist (playlist_of ''p1'' (replicate 301 channel_cnn)) M3u None empty_store))))
       = []"
proof -
  let ?P1 = "playlist_of ''p1'' (replicate 301 channel_cnn)"
  let ?P2 = "playlist_of ''p1'' [channel_bbc]"
  obtain r1 s1 where sv1: "savePlaylist ?P1 M3u None empty_store = (r1, s1)"
    by (cases "savePlaylist ?P1 M3u None empty_store")
  obtain r2 s2 where sv2: "savePlaylist ?P2 M3u None s1 = (r2, s2)"
    by (cases "savePlaylist ?P2 M3u None s1")
  have h1: "faults empty_store = []" by (simp add: empty_store_def)
  note a = saved_state [OF h1 sv1]
  note b = saved_state [OF a(2) sv2]
  have pid1: "p_id ?P1 = ''p1''" and ch1: "p_channels ?P1 = replicate 301 channel_cnn"
    and pid2: "p_id ?P2 = ''p1''" and ch2: "p_channels ?P2 = [channel_bbc]"
    by (simp_all add: playlist_of_def)
  have n2: "chunk_count (length (p_channels ?P2)) = 1"
    unfolding ch2 by (rule chunk_count_1)
  have m: "items s2 (meta_key ''p1'') = Some (SMeta (initial_meta ?P2 M3u None))"
    using b(3) by (simp add: pid2)
  have mc: "m_chunkCount (initial_meta ?P2 M3u None) = 1"
    using n2 by (simp add: initial_meta_def)
  have "items s2 (chunk_key (p_id ?P2) 0) = Some (SChunk (chunk_of (p_channels ?P2) 0))"
    by (rule b(4)) (simp add: n2)
  then have k0: "items s2 (chunk_key ''p1'' 0) = Some (SChunk [minimizeChannel channel_bbc])"
    unfolding pid2 ch2 by (simp add: chunk_of_def slice_def CHUNK_SIZE_def Let_def)
  have "items s2 (chunk_key (p_id ?P2) 1) = items s1 (chunk_key (p_id ?P2) 1)"
    by (rule b(5)) (simp add: n2)
  also have "\<dots> = items s1 (chunk_key (p_id ?P1) 1)" by (simp add: pid1 pid2)
  also have "\<dots> = Some (SChunk (chunk_of (p_channels ?P1) 1))"
    unfolding ch1 by (rule a(4) [unfolded ch1]) (rule one_below_chunk_count_301)
  finally have k1: "items s2 (chunk_key ''p1'' 1) = Some (SChunk [minimizeChannel channel_cnn])"
    unfolding pid2 ch1 chunk_of_301_1 .
  show ?thesis using a(1) b(1) b(2) n2 m mc k0 k1 by (simp add: sv1 sv2)
qed


theorem save_twice_summary_and_chunks_counterexample:
  "fst (savePlaylist (playlist_of ''p1'' (replicate 301 channel_cnn)) M3u None empty_store) = Inr ()
   \<and> fst (savePlaylist (playlist_of ''p1'' [channel_bbc]) M3u None
            (snd (savePlaylist (playlist_of ''p1'' (replicate 301 channel_cnn)) M3u None empty_store)))
       = Inr ()
   \<and> chunk_count (length (p_channels (playlist_of ''p1'' [channel_bbc]))) = 1
   \<and> items (snd (savePlaylist (playlist_of ''p1'' [channel_bbc]) M3u None
            (snd (savePlaylist (playlist_of ''p1'' (replicate 301 channel_cnn)) M3u None empty_store))))
        (meta_key ''p1'') = Some (SMeta (initial_meta (playlist_of ''p1'' [channel_bbc]) M3u None))
   \<and> m_chunkCount (initial_meta (playlist_of ''p1'' [channel_bbc]) M3u None) = 1
   \<and> items (snd (savePlaylist (playlist_of ''p1'' [channel_bbc]) M3u None
            (snd (savePlaylist (playlist_of ''p1'' (replicate 301 channel_cnn)) M3u None empty_store))))
        (chunk_key ''p1'' 0) = Some (SChunk [minimizeChannel channel_bbc])
   \<and> items (snd (savePlaylist (playlist_of ''p1'' [channel_bbc]) M3u None
            (snd (savePlaylist (playlist_of ''p1'' (replicate 301 channel_cnn)) M3u None empty_store))))
        (chunk_key ''p1'' 1) = Some (SChunk [minimizeChannel channel_cnn])"
  using two_saves_example by simp

section \<open>Deleting a playlist\<close>

lemma multiRemove_ok:
  "faults s = [] \<Longrightarrow>
   multiRemove ks s = (Inr (), s\<lparr>items := (\<lambda>k. if k \<in> set ks then None else items s k)\<rparr>)"
  by (simp add: multiRemove_def next_fault_def)

lemma removeItem_ok:
  "faults s = [] \<Longrightarrow> removeItem k s = (Inr (), s\<lparr>items := (items s)(k := None)\<rparr>)"
  by (simp add: removeItem_def next_fault_def)

lemma getPlaylistList_summary: "faults s = [] \<Longrightarrow> getPlaylistList s = (summary_list s, s)"
  by (simp add: getPlaylistList_ok summary_list_def)

lemma deletePlaylist_ok:
  assumes "faults s = []" and "items s (meta_key pid) = Some (SMeta m)"
  shows "deletePlaylist pid s =
           s\<lparr>items := (\<lambda>k. if k = KEY_ACTIVE_PLAYLIST_ID
                              then (if items s KEY_ACTIVE_PLAYLIST_ID = Some (SText pid)
                                    then (case filter (\<lambda>p. i_id p \<noteq> pid) (summary_list s) of
                                            [] \<Rightarrow> None
                                          | first # _ \<Rightarrow> Some (SText (i_id first)))
                                    else items s KEY_ACTIVE_PLAYLIST_ID)
                              else if k = KEY_PLAYLISTS
                              then Some (SInfos (filter (\<lambda>p. i_id p \<noteq> pid) (summary_list s)))
                              else if k \<in> set (meta_key pid # map (chunk_key pid) [0 ..< m_chunkCount m])
                              then None else items s k)\<rparr>"
proof -
  let ?keys = "meta_key pid # map (chunk_key pid) [0 ..< m_chunkCount m]"
  let ?filtered = "filter (\<lambda>p. i_id p \<noteq> pid) (summary_list s)"
  let ?s2 = "s\<lparr>items := (\<lambda>k. if k \<in> set ?keys then None else items s k)\<rparr>"
  let ?s4 = "?s2\<lparr>items := (items ?s2)(KEY_PLAYLISTS \<mapsto> SInfos ?filtered)\<rparr>"
  let ?act = "case items s KEY_ACTIVE_PLAYLIST_ID of Some (SText v) \<Rightarrow> Some v | _ \<Rightarrow> None"
  have nk: "KEY_PLAYLISTS \<notin> set ?keys" "KEY_ACTIVE_PLAYLIST_ID \<notin> set ?keys"
    by (auto simp: keys_distinct)
  have f2: "faults ?s2 = []" and f4: "faults ?s4 = []" using assms(1) by simp_all
  have l: "summary_list ?s2 = summary_list s"
    using nk by (simp add: summary_list_def)
  have act: "items ?s4 KEY_ACTIVE_PLAYLIST_ID = items s KEY_ACTIVE_PLAYLIST_ID"
    using nk keys_distinct(5) by simp
  have g1: "getItem (meta_key pid) s = (Inr (Some (SMeta m)), s)"
    using assms by (simp add: getItem_ok)
  have g2: "multiRemove ?keys s = (Inr (), ?s2)"
    using assms(1) by (rule multiRemove_ok)
  have g3: "getPlaylistList ?s2 = (summary_list s, ?s2)"
    using getPlaylistList_summary [OF f2] unfolding l .
  have g4: "savePlaylistList ?filtered ?s2 = ?s4"
    using f2 by (rule savePlaylistList_ok)
  have g5: "getActivePlaylistId ?s4 = (?act, ?s4)"
    by (rule getActivePlaylistId_ok [OF f4, unfolded act])
  have a: "?act = Some pid \<longleftrightarrow> items s KEY_ACTIVE_PLAYLIST_ID = Some (SText pid)"
    by (simp split: option.splits stored.splits)
  have "deletePlaylist pid s =
          (if ?act = Some pid then
             (case ?filtered of
                first # _ \<Rightarrow> setActivePlaylistId (i_id first) ?s4
              | [] \<Rightarrow> snd (removeItem KEY_ACTIVE_PLAYLIST_ID ?s4))
           else ?s4)"
    unfolding deletePlaylist_def g1 prod.case sum.case option.case stored.case g2 Let_def
      g3 g4 g5 by (simp only: prod.case sum.case list.case cong: list.case_cong if_cong)
  also have "\<dots> = 
          (if items s KEY_ACTIVE_PLAYLIST_ID = Some (SText pid) then
             (case ?filtered of
                first # _ \<Rightarrow> setActivePlaylistId (i_id first) ?s4
              | [] \<Rightarrow> snd (removeItem KEY_ACTIVE_PLAYLIST_ID ?s4))
           else ?s4)"
    unfolding a ..
  also have "\<dots> = s\<lparr>items := (\<lambda>k. if k = KEY_ACTIVE_PLAYLIST_ID
                              then (if items s KEY_ACTIVE_PLAYLIST_ID = Some (SText pid)
                                    then (case ?filtered of
                                            [] \<Rightarrow> None
                                          | first # _ \<Rightarrow> Some (SText (i_id first)))
                                    else items s KEY_ACTIVE_PLAYLIST_ID)
                              else if k = KEY_PLAYLISTS then Some (SInfos ?filtered)
                              else if k \<in> set ?keys then None else items s k)\<rparr>"
  proof (cases "items s KEY_ACTIVE_PLAYLIST_ID = Some (SText pid)")
    case False
    then show ?thesis using nk keys_distinct(5) by (auto simp: fun_eq_iff)
  next
    case True
    show ?thesis
    proof (cases ?filtered)
      case Nil
      then show ?thesis
        using True nk keys_distinct(5) removeItem_ok [OF f4, of KEY_ACTIVE_PLAYLIST_ID]
        by (auto simp: fun_eq_iff)
    next
      case (Cons first rest)
      then show ?thesis
        using True nk keys_distinct(5) setActivePlaylistId_ok [OF f4, of "i_id first"]
        by (auto simp: fun_eq_iff)
    qed
  qed
  finally show ?thesis .
qed

lemma deleted_state:
  assumes "faults s = []" and "items s (meta_key pid) = Some (SMeta m)"
  shows "items (deletePlaylist pid s) (meta_key pid) = None"
    and "\<And>j. j < m_chunkCount m \<Longrightarrow> items (deletePlaylist pid s) (chunk_key pid j) = None"
    and "\<And>j. m_chunkCount m \<le> j \<Longrightarrow>
           items (deletePlaylist pid s) (chunk_key pid j) = items s (chunk_key pid j)"
    and "summary_list (deletePlaylist pid s) = filter (\<lambda>p. i_id p \<noteq> pid) (summary_list s)"
    and "items s KEY_ACTIVE_PLAYLIST_ID = Some (SText pid) \<Longrightarrow>
           items (deletePlaylist pid s) KEY_ACTIVE_PLAYLIST_ID =
             (case filter (\<lambda>p. i_id p \<noteq> pid) (summary_list s) of
                [] \<Rightarrow> None
              | first # _ \<Rightarrow> Some (SText (i_id first)))"
    and "items s KEY_ACTIVE_PLAYLIST_ID \<noteq> Some (SText pid) \<Longrightarrow>
           items (deletePlaylist pid s) KEY_ACTIVE_PLAYLIST_ID = items s KEY_ACTIVE_PLAYLIST_ID"
proof -
  note d = deletePlaylist_ok [OF assms]
  show "items (deletePlaylist pid s) (meta_key pid) = None"
    unfolding d by (simp add: keys_distinct [symmetric])
  show "items (deletePlaylist pid s) (chunk_key pid j) = None" if "j < m_chunkCount m" for j
    unfolding d using that by (simp add: keys_distinct [symmetric])
  show "items (deletePlaylist pid s) (chunk_key pid j) = items s (chunk_key pid j)"
    if "m_chunkCount m \<le> j" for j
    unfolding d using that meta_chunk_key [of pid pid j]
    by (auto simp: keys_distinct [symmetric] chunk_key_inj)
  show "summary_list (deletePlaylist pid s) = filter (\<lambda>p. i_id p \<noteq> pid) (summary_list s)"
    unfolding d using keys_distinct(5) by (simp add: summary_list_def [of "_\<lparr>items := _\<rparr>"])
  show "items (deletePlaylist pid s) KEY_ACTIVE_PLAYLIST_ID =
             (case filter (\<lambda>p. i_id p \<noteq> pid) (summary_list s) of
                [] \<Rightarrow> None
              | first # _ \<Rightarrow> Some (SText (i_id first)))"
    if "items s KEY_ACTIVE_PLAYLIST_ID = Some (SText pid)"
    unfolding d using that by simp
  show "items (deletePlaylist pid s) KEY_ACTIVE_PLAYLIST_ID = items s KEY_ACTIVE_PLAYLIST_ID"
    if "items s KEY_ACTIVE_PLAYLIST_ID \<noteq> Some (SText pid)"
    unfolding d using that by simp
qed

text \<open>
  C5 (amended). When no store call fails and the store holds a metadata record for the
  id, then after \<open>deletePlaylist(id)\<close> the metadata record, the chunk record at every
  index below the metadata's \<open>chunkCount\<close> and every summary entry of the id are gone;
  if the id was the active playlist, the active key holds the id of the first remaining
  summary entry, or is removed when none remains, and otherwise it is untouched. Chunk
  records of the id at \<open>chunkCount\<close> and above are not removed.
\<close>

theorem delete_removes_referenced_records:
  assumes "faults s = []" and "items s (meta_key pid) = Some (SMeta m)"
  shows "items (deletePlaylist pid s) (meta_key pid) = None
         \<and> (\<forall>j < m_chunkCount m. items (deletePlaylist pid s) (chunk_key pid j) = None)
         \<and> (\<forall>j \<ge> m_chunkCount m.
               items (deletePlaylist pid s) (chunk_key pid j) = items s (chunk_key pid j))
         \<and> summary_list (deletePlaylist pid s) = filter (\<lambda>p. i_id p \<noteq> pid) (summary_list s)
         \<and> summary_entries pid (deletePlaylist pid s) = 0
         \<and> (if items s KEY_ACTIVE_PLAYLIST_ID = Some (SText pid)
            then items (deletePlaylist pid s) KEY_ACTIVE_PLAYLIST_ID =
                   (case summary_list (deletePlaylist pid s) of
                      [] \<Rightarrow> None
                    | first # _ \<Rightarrow> Some (SText (i_id first)))
            else items (deletePlaylist pid s) KEY_ACTIVE_PLAYLIST_ID
                   = items s KEY_ACTIVE_PLAYLIST_ID)"
proof -
  note d = deleted_state [OF assms]
  have "summary_entries pid (deletePlaylist pid s) = 0"
    by (simp add: summary_entries_def d(4))
  moreover have "if items s KEY_ACTIVE_PLAYLIST_ID = Some (SText pid)
            then items (deletePlaylist pid s) KEY_ACTIVE_PLAYLIST_ID =
                   (case summary_list (deletePlaylist pid s) of
                      [] \<Rightarrow> None
                    | first # _ \<Rightarrow> Some (SText (i_id first)))
            else items (deletePlaylist pid s) KEY_ACTIVE_PLAYLIST_ID
                   = items s KEY_ACTIVE_PLAYLIST_ID"
    using d(5) d(6) unfolding d(4) by simp
  ultimately show ?thesis using d(1) d(2) d(3) d(4) by blast
qed

theorem delete_removes_referenced_records_witness:
  "faults (snd (savePlaylist (playlist_of ''p1'' [channel_cnn]) M3u None empty_store)) = []
   \<and> items (snd (savePlaylist (playlist_of ''p1'' [channel_cnn]) M3u None empty_store))
          (meta_key ''p1'')
       = Some (SMeta (initial_meta (playlist_of ''p1'' [channel_cnn]) M3u None))
   \<and> items (snd (savePlaylist (playlist_of ''p1'' [channel_cnn]) M3u None empty_store))
          (chunk_key ''p1'' 0) = Some (SChunk [minimizeChannel channel_cnn])
   \<and> items (deletePlaylist ''p1''
               (snd (savePlaylist (playlist_of ''p1'' [channel_cnn]) M3u None empty_store)))
          (meta_key ''p1'') = None
   \<and> items (deletePlaylist ''p1''
               (snd (savePlaylist (playlist_of ''p1'' [channel_cnn]) M3u None empty_store)))
          (chunk_key ''p1'' 0) = None
   \<and> summary_entries ''p1'' (deletePlaylist ''p1''
               (snd (savePlaylist (playlist_of ''p1'' [channel_cnn]) M3u None empty_store))) = 0"
proof -
  let ?P = "playlist_of ''p1'' [channel_cnn]"
  obtain r s1 where sv: "savePlaylist ?P M3u None empty_store = (r, s1)"
    by (cases "savePlaylist ?P M3u None empty_store")
  have h0: "faults empty_store = []" by (simp add: empty_store_def)
  have pid: "p_id ?P = ''p1''" and ch: "p_channels ?P = [channel_cnn]"
    by (simp_all add: playlist_of_def)
  note a = saved_state [OF h0 sv]
  have h1: "faults s1 = []" by (rule a(2))
  have h2: "items s1 (meta_key ''p1'') = Some (SMeta (initial_meta ?P M3u None))"
    using a(3) unfolding pid .
  have n: "m_chunkCount (initial_meta ?P M3u None) = 1"
    by (simp add: initial_meta_def ch chunk_count_def CHUNK_SIZE_def)
  have "items s1 (chunk_key (p_id ?P) 0) = Some (SChunk (chunk_of (p_channels ?P) 0))"
    by (rule a(4)) (simp add: ch chunk_count_def CHUNK_SIZE_def)
  then have c0: "items s1 (chunk_key ''p1'' 0) = Some (SChunk [minimizeChannel channel_cnn])"
    unfolding pid ch by (simp add: chunk_of_def slice_def CHUNK_SIZE_def Let_def)
  from delete_removes_referenced_records [OF h1 h2]
  have "items (deletePlaylist ''p1'' s1) (meta_key ''p1'') = None"
    "items (deletePlaylist ''p1'' s1) (chunk_key ''p1'' 0) = None"
    "summary_entries ''p1'' (deletePlaylist ''p1'' s1) = 0"
    by (simp_all add: n)
  then show ?thesis using h1 h2 c0 by (simp add: sv)
qed

theorem delete_removes_referenced_records_counterexample:
  "items (snd (savePlaylist (playlist_of ''p1'' [channel_bbc]) M3u None
            (snd (savePlaylist (playlist_of ''p1'' (replicate 301 channel_cnn)) M3u None empty_store))))
        (meta_key ''p1'') = Some (SMeta (initial_meta (playlist_of ''p1'' [channel_bbc]) M3u None))
   \<and> items (deletePlaylist ''p1''
        (snd (savePlaylist (playlist_of ''p1'' [channel_bbc]) M3u None
            (snd (savePlaylist (playlist_of ''p1'' (replicate 301 channel_cnn)) M3u None empty_store)))))
        (meta_key ''p1'') = None
   \<and> items (deletePlaylist ''p1''
        (snd (savePlaylist (playlist_of ''p1'' [channel_bbc]) M3u None
            (snd (savePlaylist (playlist_of ''p1'' (replicate 301 channel_cnn)) M3u None empty_store)))))
        (chunk_key ''p1'' 1) = Some (SChunk [minimizeChannel channel_cnn])"
proof -
  let ?s2 = "snd (savePlaylist (playlist_of ''p1'' [channel_bbc]) M3u None
            (snd (savePlaylist (playlist_of ''p1'' (replicate 301 channel_cnn)) M3u None empty_store)))"
  let ?m = "initial_meta (playlist_of ''p1'' [channel_bbc]) M3u None"
  from two_saves_example have f: "faults ?s2 = []"
    and m: "items ?s2 (meta_key ''p1'') = Some (SMeta ?m)"
    and n: "m_chunkCount ?m = 1"
    and k1: "items ?s2 (chunk_key ''p1'' 1) = Some (SChunk [minimizeChannel channel_cnn])"
    by blast+
  note d = deleted_state [OF f m]
  have "items (deletePlaylist ''p1'' ?s2) (chunk_key ''p1'' 1) = items ?s2 (chunk_key ''p1'' 1)"
    by (rule d(3)) (simp add: n)
  with d(1) m k1 show ?thesis by simp
qed

section \<open>Categories of a parsed playlist\<close>

lemma foldl_invariant:
  assumes "P init" and "\<And>st x. P st \<Longrightarrow> P (f st x)"
  shows "P (foldl f init xs)"
  using assms(1) by (induction xs arbitrary: init) (simp_all add: assms(2))

lemma array_sort_Cons: "array_sort cmp (x # xs) = insert_by cmp x (array_sort cmp xs)"
  by (simp add: array_sort_def)

lemma insert_by_set [simp]: "set (insert_by cmp x ys) = insert x (set ys)"
  by (induction ys) auto

lemma insert_by_distinct [simp]: "distinct (insert_by cmp x ys) \<longleftrightarrow> x \<notin> set ys \<and> distinct ys"
  by (induction ys) auto

lemma array_sort_set [simp]: "set (array_sort cmp xs) = set xs"
  by (induction xs) (simp_all add: array_sort_Cons, simp add: array_sort_def)

lemma array_sort_distinct [simp]: "distinct (array_sort cmp xs) = distinct xs"
  by (induction xs) (simp_all add: array_sort_Cons, simp add: array_sort_def)

lemma insert_by_sorted:
  assumes "consistent_comparator cmp" and "sorted_wrt (\<lambda>a b. cmp a b \<le> 0) ys"
  shows "sorted_wrt (\<lambda>a b. cmp a b \<le> 0) (insert_by cmp x ys)"
  using assms(2)
proof (induction ys)
  case Nil
  then show ?case by simp
next
  case (Cons y ys)
  from assms(1) have total: "\<And>a b. cmp a b \<le> 0 \<or> cmp b a \<le> 0"
    and trans: "\<And>a b c. cmp a b \<le> 0 \<Longrightarrow> cmp b c \<le> 0 \<Longrightarrow> cmp a c \<le> 0"
    unfolding consistent_comparator_def by blast+
  show ?case
  proof (cases "cmp x y \<le> 0")
    case True
    with Cons.prems trans show ?thesis by auto
  next
    case False
    with total have "cmp y x \<le> 0" by blast
    with False Cons show ?thesis by auto
  qed
qed

lemma array_sort_sorted:
  "consistent_comparator cmp \<Longrightarrow> sorted_wrt (\<lambda>a b. cmp a b \<le> 0) (array_sort cmp xs)"
  by (induction xs) (simp_all add: array_sort_Cons insert_by_sorted, simp add: array_sort_def)

lemma insert_by_uncategorized:
  "insert_by (category_order lc) ''Uncategorized'' ys = ys @ [''Uncategorized'']"
  by (induction ys) (simp_all add: category_order_def)

lemma insert_by_other:
  "x \<noteq> ''Uncategorized'' \<Longrightarrow> ''Uncategorized'' \<notin> set ys \<Longrightarrow>
   insert_by (category_order lc) x ys = insert_by lc x ys"
  by (induction ys) (auto simp: category_order_def)

lemma insert_by_before_uncategorized:
  "x \<noteq> ''Uncategorized'' \<Longrightarrow> ''Uncategorized'' \<notin> set ys \<Longrightarrow>
   insert_by (category_order lc) x (ys @ [''Uncategorized'']) = insert_by lc x ys @ [''Uncategorized'']"
  by (induction ys) (auto simp: category_order_def)

lemma array_sort_categories:
  "distinct xs \<Longrightarrow>
   array_sort (category_order lc) xs =
     array_sort lc (filter (\<lambda>g. g \<noteq> ''Uncategorized'') xs)
       @ (if ''Uncategorized'' \<in> set xs then [''Uncategorized''] else [])"
proof (induction xs)
  case Nil
  then show ?case by (simp add: array_sort_def)
next
  case (Cons x xs)
  let ?U = "''Uncategorized''"
  let ?f = "filter (\<lambda>g. g \<noteq> ?U) xs"
  have n: "?U \<notin> set (array_sort lc ?f)" by simp
  from Cons have IH: "array_sort (category_order lc) xs
                        = array_sort lc ?f @ (if ?U \<in> set xs then [?U] else [])"
    by simp
  show ?case
  proof (cases "x = ?U")
    case True
    with Cons.prems have "?U \<notin> set xs" by simp
    with IH True show ?thesis
      by (simp add: array_sort_Cons insert_by_uncategorized)
  next
    case False
    show ?thesis
    proof (cases "?U \<in> set xs")
      case True
      with IH False n show ?thesis
        by (simp add: array_sort_Cons insert_by_before_uncategorized)
    next
      case U: False
      with IH False n show ?thesis
        by (simp add: array_sort_Cons insert_by_other)
    qed
  qed
qed

lemma set_add_set [simp]: "set (set_add x xs) = insert x (set xs)"
  by (auto simp: set_add_def)

lemma set_add_distinct [simp]: "distinct (set_add x xs) = distinct xs"
  by (simp add: set_add_def)

lemma parse_step_categories: "categories_inv st \<Longrightarrow> categories_inv (parse_step ids lines st i)"
  by (auto simp: categories_inv_def parse_step_def Let_def split: prod.splits)

lemma parse_loop_categories:
  "categories_inv (foldl (parse_step ids lines)
      \<lparr> ps_channels = [], ps_categoriesSet = [], ps_currentChannel = empty_partial \<rparr> xs)"
  by (rule foldl_invariant) (simp_all add: categories_inv_def parse_step_categories [unfolded categories_inv_def])

lemma others_set:
  "set (array_sort lc (filter (\<lambda>g. g \<noteq> u) xs) @ (if u \<in> set xs then [u] else [])) = set xs"
  by auto

text \<open>
  C4 (amended). For every input text, the categories of the parsed playlist are the
  group values of its channels, each exactly once; \<open>Uncategorized\<close>, when it occurs,
  is the last one; and the categories before it are in the order of the runtime's
  \<open>localeCompare\<close> (each one at or before the next in that collation), given that
  \<open>localeCompare\<close> is a consistent comparison: any two strings are comparable, and
  transitively so.
\<close>

theorem parseM3U_categories:
  "set (p_categories (parseM3U lc ids now content playlistName))
     = c_group ` set (p_channels (parseM3U lc ids now content playlistName))
   \<and> distinct (p_categories (parseM3U lc ids now content playlistName))
   \<and> p_categories (parseM3U lc ids now content playlistName)
       = filter (\<lambda>g. g \<noteq> ''Uncategorized'') (p_categories (parseM3U lc ids now content playlistName))
         @ (if ''Uncategorized'' \<in> c_group ` set (p_channels (parseM3U lc ids now content playlistName))
            then [''Uncategorized''] else [])
   \<and> (consistent_comparator lc \<longrightarrow>
        sorted_wrt (\<lambda>a b. lc a b \<le> 0)
          (filter (\<lambda>g. g \<noteq> ''Uncategorized'')
                  (p_categories (parseM3U lc ids now content playlistName))))"
proof -
  let ?U = "''Uncategorized''"
  let ?lines = "map trim (split (CHR 0x0A) content)"
  let ?st = "foldl (parse_step ids ?lines)
                 \<lparr> ps_channels = [], ps_categoriesSet = [], ps_currentChannel = empty_partial \<rparr>
                 [0 ..< length ?lines]"
  let ?others = "array_sort lc (filter (\<lambda>g. g \<noteq> ?U) (ps_categoriesSet ?st))"
  have inv: "set (ps_categoriesSet ?st) = c_group ` set (ps_channels ?st)"
    "distinct (ps_categoriesSet ?st)"
    using parse_loop_categories [of ids ?lines "[0 ..< length ?lines]"]
    by (simp_all add: categories_inv_def)
  have ch: "p_channels (parseM3U lc ids now content playlistName) = ps_channels ?st"
    by (simp add: parseM3U_def Let_def)
  have "p_categories (parseM3U lc ids now content playlistName)
          = array_sort (category_order lc) (ps_categoriesSet ?st)"
    by (simp add: parseM3U_def Let_def)
  also have "\<dots> = ?others @ (if ?U \<in> set (ps_categoriesSet ?st) then [?U] else [])"
    using inv(2) by (rule array_sort_categories)
  finally have cat: "p_categories (parseM3U lc ids now content playlistName)
                       = ?others @ (if ?U \<in> c_group ` set (ps_channels ?st) then [?U] else [])"
    unfolding inv(1) .
  have no: "?U \<notin> set ?others" by simp
  have f: "filter (\<lambda>g. g \<noteq> ?U) (p_categories (parseM3U lc ids now content playlistName)) = ?others"
    unfolding cat using no by (simp add: filter_id_conv)
  have "set (?others @ (if ?U \<in> set (ps_categoriesSet ?st) then [?U] else []))
          = set (ps_categoriesSet ?st)"
    by (rule others_set)
  then have s: "set (p_categories (parseM3U lc ids now content playlistName)) = c_group ` set (ps_channels ?st)"
    unfolding cat inv(1) .
  have d: "distinct (p_categories (parseM3U lc ids now content playlistName))"
    unfolding cat using inv(2) by simp
  have so: "consistent_comparator lc \<Longrightarrow> sorted_wrt (\<lambda>a b. lc a b \<le> 0) ?others"
    by (rule array_sort_sorted)
  from s d cat so show ?thesis
    unfolding f ch by blast
qed

lemma compare_codes_less: "compare_codes a b < 0 \<longleftrightarrow> a < b"
  by (induction a b rule: compare_codes.induct) auto

lemma compare_codes_eq: "compare_codes a b = 0 \<longleftrightarrow> a = b"
  by (induction a b rule: compare_codes.induct) auto

lemma compare_codes_le: "compare_codes a b \<le> 0 \<longleftrightarrow> a \<le> b"
proof -
  have "compare_codes a b \<le> 0 \<longleftrightarrow> compare_codes a b < 0 \<or> compare_codes a b = 0"
    by auto
  then show ?thesis
    unfolding compare_codes_less compare_codes_eq by (simp add: order_le_less)
qed

lemma collation_le:
  "collation a b \<le> 0 \<longleftrightarrow>
     map (\<lambda>c. toLowerCase_code (of_char c)) a < map (\<lambda>c. toLowerCase_code (of_char c)) b
     \<or> (map (\<lambda>c. toLowerCase_code (of_char c)) a = map (\<lambda>c. toLowerCase_code (of_char c)) b
        \<and> (map of_char b :: nat list) \<le> map of_char a)"
proof -
  let ?ka = "map (\<lambda>c. toLowerCase_code (of_char c)) a"
  let ?kb = "map (\<lambda>c. toLowerCase_code (of_char c)) b"
  show ?thesis
  proof (cases "compare_codes ?ka ?kb = 0")
    case True
    then have "?ka = ?kb" unfolding compare_codes_eq .
    with True show ?thesis
      by (simp add: collation_def compare_codes_le)
  next
    case False
    then have ne: "?ka \<noteq> ?kb" unfolding compare_codes_eq .
    have "collation a b \<le> 0 \<longleftrightarrow> compare_codes ?ka ?kb < 0"
      using False by (auto simp: collation_def Let_def)
    with ne show ?thesis
      unfolding compare_codes_less by simp
  qed
qed

lemma collation_consistent: "consistent_comparator collation"
  unfolding consistent_comparator_def collation_le
  by (intro conjI allI impI) (auto intro: order.strict_trans order.trans)

lemmas char_eval = toUpperCase_code_def toLowerCase_code_def toUpperCase_def toLowerCase_def
  isWordChar_def dquote_def isSpace_def isLineTerminator_def char_of_eq_iff

lemmas parser_eval = parseM3U_def parse_step_def parseExtInf_def parseDRM_def parseDRM_line_def
  trim_def match_token_at_def quality_tokens_def truthy_def or_else_def empty_partial_def
  set_add_def array_sort_def category_order_def collation_def Let_def char_eval

lemma parse_example_groups:
  "p_categories (parseM3U collation example_ids 0 example_groups_m3u None)
     = [''b'', ''B'', ''Uncategorized'']"
  by (simp add: example_groups_m3u_def parser_eval)

theorem parseM3U_categories_witness:
  "consistent_comparator collation
   \<and> p_categories (parseM3U collation example_ids 0 example_groups_m3u None)
       = [''b'', ''B'', ''Uncategorized'']
   \<and> sorted_wrt (\<lambda>a b. collation a b \<le> 0) [''b'', ''B'']"
  using parseM3U_categories [of collation example_ids 0 example_groups_m3u None]
    collation_consistent
  unfolding parse_example_groups by simp

theorem parseM3U_categories_counterexample:
  "consistent_comparator collation
   \<and> p_categories (parseM3U collation example_ids 0 example_groups_m3u None)
       = [''b'', ''B'', ''Uncategorized'']
   \<and> ''B'' < ''b''
   \<and> sorted_list_of_set (set [''b'', ''B'']) = [''B'', ''b'']"
  using collation_consistent parse_example_groups by (simp add: less_char_def)

section \<open>Names of the parsed channels\<close>

















lemma example_ids_0: "example_ids 0 = ''id0''"
  by (simp add: example_ids_def decimal.simps digit_def char_of_eq_iff)






section \<open>Fetching a playlist\<close>

lemma fetch_requests:
  "fetch url headers net = (r, net') \<Longrightarrow>
   r = next_outcome net \<and> net_requests net' = net_requests net @ [(url, headers)]"
  by (auto simp: fetch_def next_outcome_def split: list.splits)

lemma includes_str_nonempty: "includes_str s pat \<Longrightarrow> pat \<noteq> [] \<Longrightarrow> s \<noteq> []"
  by (cases s) auto

lemma fetchPlaylistContent_result:
  assumes "fetchPlaylistContent url net = (content, net')"
  shows "net_requests net' =
           net_requests net @ [(url, [(''User-Agent'', ''Prysm/1.0.0''), (''Accept'', ''*/*'')])]"
    and "content = (case next_outcome net of
                      Response ok (Some body) \<Rightarrow>
                        if ok \<and> (includes_str body ''#EXTM3U'' \<or> includes_str body ''#EXTINF'')
                        then Some body else None
                    | _ \<Rightarrow> None)"
proof -
  obtain r n1 where f: "fetch url [(''User-Agent'', PRYSM_USER_AGENT), (''Accept'', ''*/*'')] net = (r, n1)"
    by (cases "fetch url [(''User-Agent'', PRYSM_USER_AGENT), (''Accept'', ''*/*'')] net")
  note fr = fetch_requests [OF f]
  have n: "net' = n1"
    using assms f by (auto simp: fetchPlaylistContent_def split: fetch_outcome.splits option.splits if_splits)
  show "net_requests net' =
           net_requests net @ [(url, [(''User-Agent'', ''Prysm/1.0.0''), (''Accept'', ''*/*'')])]"
    using fr n by (simp add: PRYSM_USER_AGENT_def)
  show "content = (case next_outcome net of
                      Response ok (Some body) \<Rightarrow>
                        if ok \<and> (includes_str body ''#EXTM3U'' \<or> includes_str body ''#EXTINF'')
                        then Some body else None
                    | _ \<Rightarrow> None)"
    using assms f fr
    by (auto simp: fetchPlaylistContent_def split: fetch_outcome.splits option.splits if_splits)
qed

lemma fetch_outcomes:
  "fetch url headers net = (r, net') \<Longrightarrow> net_outcomes net' = drop 1 (net_outcomes net)"
  by (auto simp: fetch_def split: list.splits)

lemma fetchPlaylistContent_outcomes:
  assumes "fetchPlaylistContent url net = (content, net')"
  shows "net_outcomes net' = drop 1 (net_outcomes net)"
proof -
  obtain r n1 where f: "fetch url [(''User-Agent'', PRYSM_USER_AGENT), (''Accept'', ''*/*'')] net = (r, n1)"
    by (cases "fetch url [(''User-Agent'', PRYSM_USER_AGENT), (''Accept'', ''*/*'')] net")
  have n: "net' = n1"
    using assms f by (auto simp: fetchPlaylistContent_def split: fetch_outcome.splits option.splits if_splits)
  show ?thesis unfolding n using f by (rule fetch_outcomes)
qed

text \<open>
  C7. \<open>fetchAndParseM3U(url)\<close> makes exactly one request, for \<open>url\<close> with the fixed
  user agent and \<open>Accept: */*\<close>, and uses up one outcome of the network. It returns a
  playlist if and only if that request is answered by a successful response whose body
  contains \<open>#EXTM3U\<close> or \<open>#EXTINF\<close>, and the playlist is then what \<open>parseM3U\<close>
  makes of that body under the name derived from the URL, with the URL as its \<open>url\<close>
  field; in every other case (rejected request, unsuccessful status, unreadable body,
  missing marker) it throws the fetch-failure error, whose message says that the server
  may be blocking requests or require authentication.
\<close>

theorem fetchAndParseM3U_single_attempt:
  assumes "fetchAndParseM3U lc ids now url net = (r, net')"
  shows "net_requests net' =
           net_requests net @ [(url, [(''User-Agent'', ''Prysm/1.0.0''), (''Accept'', ''*/*'')])]
         \<and> net_outcomes net' = drop 1 (net_outcomes net)
         \<and> ((\<exists>playlist. r = Inr playlist) \<longleftrightarrow>
              (\<exists>body. next_outcome net = Response True (Some body)
                 \<and> (includes_str body ''#EXTM3U'' \<or> includes_str body ''#EXTINF'')))
         \<and> (\<forall>body. next_outcome net = Response True (Some body)
                 \<and> (includes_str body ''#EXTM3U'' \<or> includes_str body ''#EXTINF'')
              \<longrightarrow> r = Inr ((parseM3U lc ids now body (Some (url_playlist_name url)))
                            \<lparr>p_url := Some url\<rparr>))
         \<and> ((\<nexists>playlist. r = Inr playlist) \<longrightarrow>
              r = Inl \<lparr> e_message = Some (''Could not fetch playlist. The server may be blocking ''
                                          @ ''requests or require specific app authentication.''),
                        e_code = None \<rparr>)"
proof -
  obtain content n1 where f: "fetchPlaylistContent url net = (content, n1)"
    by (cases "fetchPlaylistContent url net")
  note fr = fetchPlaylistContent_result [OF f]
  note fo = fetchPlaylistContent_outcomes [OF f]
  have n: "net' = n1"
    using assms f by (auto simp: fetchAndParseM3U_def Let_def split: if_splits)
  have ok: "(\<exists>playlist. r = Inr playlist) \<longleftrightarrow> truthy content"
    using assms f by (auto simp: fetchAndParseM3U_def Let_def split: if_splits)
  have fail: "\<not> truthy content \<Longrightarrow> r = Inl fetch_failure"
    using assms f by (auto simp: fetchAndParseM3U_def Let_def split: if_splits)
  have t: "truthy content \<longleftrightarrow>
             (\<exists>body. next_outcome net = Response True (Some body)
                 \<and> (includes_str body ''#EXTM3U'' \<or> includes_str body ''#EXTINF''))"
    unfolding fr(2)
    by (auto simp: truthy_def split: fetch_outcome.splits option.splits dest: includes_str_nonempty)
  have parsed: "r = Inr ((parseM3U lc ids now body (Some (url_playlist_name url)))\<lparr>p_url := Some url\<rparr>)"
    if b: "next_outcome net = Response True (Some body)
           \<and> (includes_str body ''#EXTM3U'' \<or> includes_str body ''#EXTINF'')" for body
  proof -
    from b have c: "content = Some body" unfolding fr(2) by auto
    from b t have "truthy content" by blast
    with assms f c show ?thesis
      by (simp add: fetchAndParseM3U_def Let_def url_playlist_name_def)
  qed
  show ?thesis
    using fr(1) fo n ok fail t parsed by (auto simp: fetch_failure_def)
qed

theorem fetchAndParseM3U_single_attempt_witness:
  "fst (fetchAndParseM3U collation example_ids 0 ''http://host/tv/list.m3u''
         (network_answering [Response False (Some example_m3u), Response True (Some example_m3u)]))
     = Inl fetch_failure
   \<and> net_requests (snd (fetchAndParseM3U collation example_ids 0 ''http://host/tv/list.m3u''
         (network_answering [Response False (Some example_m3u), Response True (Some example_m3u)])))
     = [(''http://host/tv/list.m3u'', [(''User-Agent'', ''Prysm/1.0.0''), (''Accept'', ''*/*'')])]
   \<and> next_outcome (network_answering [Response True (Some example_m3u)])
       = Response True (Some example_m3u)
   \<and> includes_str example_m3u ''#EXTM3U''
   \<and> url_playlist_name ''http://host/tv/list.m3u'' = ''list''
   \<and> fst (fetchAndParseM3U collation example_ids 0 ''http://host/tv/list.m3u''
         (network_answering [Response True (Some example_m3u)]))
     = Inr ((parseM3U collation example_ids 0 example_m3u (Some ''list''))
              \<lparr>p_url := Some ''http://host/tv/list.m3u''\<rparr>)
   \<and> p_channels (parseM3U collation example_ids 0 example_m3u (Some ''list'')) = [channel_cnn]
   \<and> net_requests (snd (fetchAndParseM3U collation example_ids 0 ''http://host/tv/list.m3u''
         (network_answering [Response True (Some example_m3u)])))
     = [(''http://host/tv/list.m3u'', [(''User-Agent'', ''Prysm/1.0.0''), (''Accept'', ''*/*'')])]
   \<and> net_outcomes (snd (fetchAndParseM3U collation example_ids 0 ''http://host/tv/list.m3u''
         (network_answering [Response True (Some example_m3u)]))) = []"
proof -
  let ?url = "''http://host/tv/list.m3u''"
  let ?net = "network_answering [Response False (Some example_m3u), Response True (Some example_m3u)]"
  let ?good = "network_answering [Response True (Some example_m3u)]"
  obtain r net' where f: "fetchAndParseM3U collation example_ids 0 ?url ?net = (r, net')"
    by (cases "fetchAndParseM3U collation example_ids 0 ?url ?net")
  have o: "next_outcome ?net = Response False (Some example_m3u)"
    by (simp add: next_outcome_def network_answering_def)
  have q: "net_requests ?net = []"
    by (simp add: network_answering_def)
  from fetchAndParseM3U_single_attempt [OF f]
  have "r = Inl fetch_failure"
    and "net_requests net' = [(?url, [(''User-Agent'', ''Prysm/1.0.0''), (''Accept'', ''*/*'')])]"
    unfolding o q by (simp_all add: fetch_failure_def)
  then have bad: "fst (fetchAndParseM3U collation example_ids 0 ?url ?net) = Inl fetch_failure"
    "net_requests (snd (fetchAndParseM3U collation example_ids 0 ?url ?net))
       = [(?url, [(''User-Agent'', ''Prysm/1.0.0''), (''Accept'', ''*/*'')])]"
    unfolding f by simp_all
  obtain r2 net2 where g: "fetchAndParseM3U collation example_ids 0 ?url ?good = (r2, net2)"
    by (cases "fetchAndParseM3U collation example_ids 0 ?url ?good")
  have o2: "next_outcome ?good = Response True (Some example_m3u)"
    by (simp add: next_outcome_def network_answering_def)
  have q2: "net_requests ?good = []" "net_outcomes ?good = [Response True (Some example_m3u)]"
    by (simp_all add: network_answering_def)
  have inc: "includes_str example_m3u ''#EXTM3U''"
    by (simp add: example_m3u_def)
  have nm: "url_playlist_name ?url = ''list''"
    by (simp add: url_playlist_name_def or_else_def)
  from fetchAndParseM3U_single_attempt [OF g] o2 inc
  have "r2 = Inr ((parseM3U collation example_ids 0 example_m3u (Some (url_playlist_name ?url)))
                    \<lparr>p_url := Some ?url\<rparr>)"
    and "net_requests net2 = net_requests ?good @ [(?url, [(''User-Agent'', ''Prysm/1.0.0''), (''Accept'', ''*/*'')])]"
    and "net_outcomes net2 = drop 1 (net_outcomes ?good)"
    by blast+
  then have good: "fst (fetchAndParseM3U collation example_ids 0 ?url ?good)
          = Inr ((parseM3U collation example_ids 0 example_m3u (Some ''list''))\<lparr>p_url := Some ?url\<rparr>)"
    "net_requests (snd (fetchAndParseM3U collation example_ids 0 ?url ?good))
       = [(?url, [(''User-Agent'', ''Prysm/1.0.0''), (''Accept'', ''*/*'')])]"
    "net_outcomes (snd (fetchAndParseM3U collation example_ids 0 ?url ?good)) = []"
    unfolding g nm q2 by simp_all
  have ch: "p_channels (parseM3U collation example_ids 0 example_m3u (Some ''list'')) = [channel_cnn]"
    by (simp add: example_m3u_def channel_cnn_def example_ids_0 parser_eval)
  from bad good o2 inc nm ch show ?thesis by (simp only: simp_thms)
qed

text \<open>
  C8 (the code at the claim's own example). For the URL
  \<open>http://host/tv/channels.m3u8\<close> and a successful response the playlist is named
  \<open>channels8\<close>: \<open>replace(".m3u", "")\<close> runs first and takes \<open>.m3u\<close> out of
  \<open>.m3u8\<close>, after which \<open>replace(".m3u8", "")\<close> finds nothing. The url field is the
  input URL; a \<open>.m3u\<close> name loses its extension and its query string, and an empty
  last segment gives \<open>Remote Playlist\<close>. This holds whatever the collation is.
\<close>

theorem fetchAndParseM3U_name_m3u8:
  "fst (fetchAndParseM3U lc example_ids 0 ''http://host/tv/channels.m3u8''
          (network_answering [Response True (Some ''#EXTM3U'')]))
     = Inr \<lparr> p_id = ''id0'', p_name = ''channels8'',
             p_url = Some ''http://host/tv/channels.m3u8'', p_channels = [],
             p_categories = [], p_lastUpdated = 0 \<rparr>
   \<and> fst (fetchAndParseM3U lc example_ids 0 ''http://host/tv/channels.m3u?token=1''
          (network_answering [Response True (Some ''#EXTM3U'')]))
     = Inr \<lparr> p_id = ''id0'', p_name = ''channels'',
             p_url = Some ''http://host/tv/channels.m3u?token=1'', p_channels = [],
             p_categories = [], p_lastUpdated = 0 \<rparr>
   \<and> fst (fetchAndParseM3U lc example_ids 0 ''http://host/tv/''
          (network_answering [Response True (Some ''#EXTM3U'')]))
     = Inr \<lparr> p_id = ''id0'', p_name = ''Remote Playlist'',
             p_url = Some ''http://host/tv/'', p_channels = [],
             p_categories = [], p_lastUpdated = 0 \<rparr>"
  by (simp add: fetchAndParseM3U_def fetchPlaylistContent_def fetch_def network_answering_def
      PRYSM_USER_AGENT_def example_ids_0 parser_eval)

section \<open>Qualities of the variants\<close>

lemma insert_by_bandwidth:
  "insert_by (\<lambda>a b. v_bandwidth b - v_bandwidth a) x ys = insort_key (\<lambda>v. - v_bandwidth v) x ys"
  by (induction ys) simp_all

lemma array_sort_bandwidth:
  "array_sort (\<lambda>a b. v_bandwidth b - v_bandwidth a) vs = sort_key (\<lambda>v. - v_bandwidth v) vs"
  by (induction vs) (simp_all add: array_sort_def insert_by_bandwidth)

lemma sorted_qualities:
  "sorted_wrt (\<lambda>a b. bitrate_value b \<le> bitrate_value a)
     (map to_quality (array_sort (\<lambda>a b. v_bandwidth b - v_bandwidth a) vs))"
proof -
  have "sorted (map (\<lambda>v. - v_bandwidth v) (sort_key (\<lambda>v. - v_bandwidth v) vs))"
    by (rule sorted_sort_key)
  then have "sorted_wrt (\<lambda>a b. v_bandwidth b \<le> v_bandwidth a) (sort_key (\<lambda>v. - v_bandwidth v) vs)"
    by (simp add: sorted_map)
  moreover have "bitrate_value (to_quality v) = v_bandwidth v" for v
    by (simp add: to_quality_def bitrate_value_def split: prod.splits)
  ultimately show ?thesis
    by (simp add: array_sort_bandwidth sorted_wrt_map)
qed

lemma higher_bitrate_value: "higher_bitrate q e \<Longrightarrow> bitrate_value e < bitrate_value q"
  by (auto simp: higher_bitrate_def bitrate_value_def split: option.splits)

lemma dedupe_step_sorted:
  assumes "\<forall>a \<in> set acc. bitrate_value q \<le> bitrate_value a"
  shows "dedupe_step acc q =
           (if q_resolution q \<in> q_resolution ` set acc then acc else acc @ [q])"
proof (cases "findIndex (\<lambda>a. q_resolution a = q_resolution q) acc")
  case None
  then have "q_resolution q \<notin> q_resolution ` set acc"
    by (auto simp: findIndex_None)
  with None show ?thesis by (simp add: dedupe_step_def)
next
  case (Some i)
  from findIndex_Some [OF Some] have i: "i < length acc" "q_resolution (acc ! i) = q_resolution q"
    by simp_all
  then have "acc ! i \<in> set acc" by simp
  with assms have "\<not> higher_bitrate q (acc ! i)"
    using higher_bitrate_value [of q "acc ! i"] by fastforce
  moreover have "q_resolution q \<in> q_resolution ` set acc"
    using i by (metis image_eqI nth_mem)
  ultimately show ?thesis using Some by (simp add: dedupe_step_def)
qed

lemma dedupe_fold:
  assumes "distinct (map q_resolution acc)"
    and "sorted_wrt (\<lambda>a b. bitrate_value b \<le> bitrate_value a) (acc @ rest)"
  shows "distinct (map q_resolution (foldl dedupe_step acc rest))"
    and "sorted_wrt (\<lambda>a b. bitrate_value b \<le> bitrate_value a) (foldl dedupe_step acc rest)"
    and "set (foldl dedupe_step acc rest) \<subseteq> set acc \<union> set rest"
    and "\<forall>q \<in> set acc \<union> set rest. \<exists>a \<in> set (foldl dedupe_step acc rest).
               q_resolution a = q_resolution q \<and> bitrate_value q \<le> bitrate_value a"
  using assms
proof (induction rest arbitrary: acc)
  case Nil
  {
    case 1 then show ?case by simp
  next
    case 2 then show ?case by simp
  next
    case 3 then show ?case by simp
  next
    case 4 then show ?case by auto
  }
next
  case (Cons q rest)
  {
    fix acc :: "VideoQuality list"
    assume d: "distinct (map q_resolution acc)"
      and s: "sorted_wrt (\<lambda>a b. bitrate_value b \<le> bitrate_value a) (acc @ q # rest)"
    have ge: "\<forall>a \<in> set acc. bitrate_value q \<le> bitrate_value a"
      using s by (auto simp: sorted_wrt_append)
    define acc' where "acc' = dedupe_step acc q"
    have st: "acc' = (if q_resolution q \<in> q_resolution ` set acc then acc else acc @ [q])"
      unfolding acc'_def using ge by (rule dedupe_step_sorted)
    have d': "distinct (map q_resolution acc')"
      using d by (auto simp: st)
    have s': "sorted_wrt (\<lambda>a b. bitrate_value b \<le> bitrate_value a) (acc' @ rest)"
      using s by (auto simp: st sorted_wrt_append)
    have sub: "set acc' \<union> set rest \<subseteq> set acc \<union> set (q # rest)"
      by (auto simp: st)
    have cov: "\<exists>a \<in> set acc'. q_resolution a = q_resolution x \<and> bitrate_value x \<le> bitrate_value a"
      if "x \<in> set acc \<or> x = q" for x
      using that ge by (auto simp: st)
    have f: "foldl dedupe_step acc (q # rest) = foldl dedupe_step acc' rest"
      by (simp add: acc'_def)
    note d' s' sub cov f
  } note step = this
  {
    case 1
    show ?case
      unfolding step(5) [OF 1]
      by (rule Cons.IH(1) [OF step(1) [OF 1] step(2) [OF 1]])
  next
    case 2
    show ?case
      unfolding step(5) [OF 2]
      by (rule Cons.IH(2) [OF step(1) [OF 2] step(2) [OF 2]])
  next
    case 3
    show ?case
      unfolding step(5) [OF 3]
      using Cons.IH(3) [OF step(1) [OF 3] step(2) [OF 3]] step(3) [OF 3] by blast
  next
    case 4
    show ?case
      unfolding step(5) [OF 4]
    proof
      fix x assume "x \<in> set acc \<union> set (q # rest)"
      then consider "x \<in> set acc \<or> x = q" | "x \<in> set rest" by auto
      then show "\<exists>a \<in> set (foldl dedupe_step (dedupe_step acc q) rest).
               q_resolution a = q_resolution x \<and> bitrate_value x \<le> bitrate_value a"
      proof cases
        case 1
        from step(4) [OF 4 1] obtain b where b: "b \<in> set (dedupe_step acc q)"
          "q_resolution b = q_resolution x" "bitrate_value x \<le> bitrate_value b" by blast
        from Cons.IH(4) [OF step(1) [OF 4] step(2) [OF 4]] b(1)
        obtain a where "a \<in> set (foldl dedupe_step (dedupe_step acc q) rest)"
          "q_resolution a = q_resolution b" "bitrate_value b \<le> bitrate_value a" by blast
        with b show ?thesis by (intro bexI [of _ a]) auto
      next
        case 2
        with Cons.IH(4) [OF step(1) [OF 4] step(2) [OF 4]] show ?thesis by blast
      qed
    qed
  }
qed

lemma bitrate_value_to_quality [simp]: "bitrate_value (to_quality v) = v_bandwidth v"
  by (simp add: to_quality_def bitrate_value_def split: prod.splits)

lemma variant_qualities_fold:
  "variant_qualities vs =
     foldl dedupe_step [] (map to_quality (array_sort (\<lambda>a b. v_bandwidth b - v_bandwidth a) vs))"
  by (cases vs) (simp_all add: variant_qualities_def array_sort_def)

lemma variant_qualities_covered:
  assumes "v \<in> set vs"
  shows "\<exists>q \<in> set (variant_qualities vs).
           q_resolution q = q_resolution (to_quality v) \<and> v_bandwidth v \<le> bitrate_value q"
proof -
  let ?Q = "map to_quality (array_sort (\<lambda>a b. v_bandwidth b - v_bandwidth a) vs)"
  have "sorted_wrt (\<lambda>a b. bitrate_value b \<le> bitrate_value a) ([] @ ?Q)"
    using sorted_qualities [of vs] by simp
  then have "\<forall>q \<in> set [] \<union> set ?Q. \<exists>a \<in> set (foldl dedupe_step [] ?Q).
               q_resolution a = q_resolution q \<and> bitrate_value q \<le> bitrate_value a"
    by (intro dedupe_fold(4)) simp
  moreover have "to_quality v \<in> set ?Q"
    using assms by (simp add: array_sort_bandwidth)
  ultimately obtain a where "a \<in> set (foldl dedupe_step [] ?Q)"
    "q_resolution a = q_resolution (to_quality v)"
    "bitrate_value (to_quality v) \<le> bitrate_value a" by blast
  then show ?thesis
    unfolding variant_qualities_fold by (intro bexI [of _ a]) simp_all
qed

text \<open>
  C6. For every list of variants, the qualities returned have pairwise different
  resolution texts, each is the quality of one of the variants, they are in descending
  order of bitrate, and every variant is represented under its resolution text by an
  entry whose bitrate is at least the variant's bandwidth. For two variants of height 720
  with bandwidths 2,000,000 and 2,500,000 the result is the single entry labelled
  \<open>720p\<close> with bitrate 2,500,000.
\<close>

theorem variant_qualities_dedup:
  "distinct (map q_resolution (variant_qualities vs))
   \<and> set (variant_qualities vs) \<subseteq> to_quality ` set vs
   \<and> sorted_wrt (\<lambda>a b. bitrate_value b \<le> bitrate_value a) (variant_qualities vs)
   \<and> (\<forall>v \<in> set vs. \<exists>q \<in> set (variant_qualities vs).
         q_resolution q = q_resolution (to_quality v) \<and> v_bandwidth v \<le> bitrate_value q)
   \<and> variant_qualities [variant_720 2000000 ''low.m3u8'', variant_720 2500000 ''high.m3u8'']
       = [\<lparr> q_label = ''720p'', q_resolution = ''720p'', q_bitrate = Some 2500000,
            q_url = Some ''high.m3u8'' \<rparr>]"
proof -
  let ?Q = "map to_quality (array_sort (\<lambda>a b. v_bandwidth b - v_bandwidth a) vs)"
  have d0: "distinct (map q_resolution [])" by simp
  have s0: "sorted_wrt (\<lambda>a b. bitrate_value b \<le> bitrate_value a) ([] @ ?Q)"
    using sorted_qualities [of vs] by simp
  have a: "distinct (map q_resolution (variant_qualities vs))"
    unfolding variant_qualities_fold using d0 s0 by (rule dedupe_fold(1))
  have "set (foldl dedupe_step [] ?Q) \<subseteq> set [] \<union> set ?Q"
    using d0 s0 by (rule dedupe_fold(3))
  then have b: "set (variant_qualities vs) \<subseteq> to_quality ` set vs"
    unfolding variant_qualities_fold by (simp add: array_sort_bandwidth)
  have c: "sorted_wrt (\<lambda>a b. bitrate_value b \<le> bitrate_value a) (variant_qualities vs)"
    unfolding variant_qualities_fold using d0 s0 by (rule dedupe_fold(2))
  have d: "\<forall>v \<in> set vs. \<exists>q \<in> set (variant_qualities vs).
         q_resolution q = q_resolution (to_quality v) \<and> v_bandwidth v \<le> bitrate_value q"
    using variant_qualities_covered by blast
  have e: "variant_qualities [variant_720 2000000 ''low.m3u8'', variant_720 2500000 ''high.m3u8'']
       = [\<lparr> q_label = ''720p'', q_resolution = ''720p'', q_bitrate = Some 2500000,
            q_url = Some ''high.m3u8'' \<rparr>]"
    by (simp add: variant_qualities_def variant_720_def array_sort_def to_quality_def
        height_tier_def dedupe_step_def higher_bitrate_def or_else_def)
  from a b c d e show ?thesis by (intro conjI)
qed

theorem variant_qualities_dedup_witness:
  "variant_720 2000000 ''low.m3u8''
     \<in> set [variant_720 2000000 ''low.m3u8'', variant_720 2500000 ''high.m3u8'']
   \<and> list_ex (\<lambda>q. 2000000 \<le> bitrate_value q)
        (variant_qualities [variant_720 2000000 ''low.m3u8'', variant_720 2500000 ''high.m3u8''])"
proof -
  let ?vs = "[variant_720 2000000 ''low.m3u8'', variant_720 2500000 ''high.m3u8'']"
  have m: "variant_720 2000000 ''low.m3u8'' \<in> set ?vs" by simp
  from variant_qualities_dedup [of ?vs] have
    "\<forall>v \<in> set ?vs. \<exists>q \<in> set (variant_qualities ?vs).
         q_resolution q = q_resolution (to_quality v) \<and> v_bandwidth v \<le> bitrate_value q"
    by (elim conjE)
  with m obtain q where "q \<in> set (variant_qualities ?vs)"
    "v_bandwidth (variant_720 2000000 ''low.m3u8'') \<le> bitrate_value q" by blast
  then have "list_ex (\<lambda>q. 2000000 \<le> bitrate_value q) (variant_qualities ?vs)"
    unfolding list_ex_iff by (intro bexI [of _ q]) (simp_all add: variant_720_def)
  with m show ?thesis by (intro conjI)
qed

end
